theory Spec2Isabelle
  imports Complex_Main "HOL-Library.AList"
begin

section \<open>The benchmark driver of benchmark\_awilix\_lifetimes.js\<close>

text \<open>
  The script builds a dependency-injection container holding synthetic services, drives a
  timed loop of requests against it and records counters. The model below follows the
  script function by function. The clock and the random number generator are inputs of
  the model; JavaScript's promise jobs (the microtask queue) are an explicit FIFO list.
\<close>

subsection \<open>Test matrix (lines 17-39)\<close>

datatype Lifetime = TRANSIENT | SCOPED | SINGLETON

record TestCase =
  numberServices :: nat
  maxInFlight :: nat
  lifetimeType :: Lifetime
  cacheBypass :: bool
  numberSeconds :: rat

record TestMatrix =
  numberServices_axis :: "nat list"
  maxInFlight_axis :: "nat list"
  lifetimeType_axis :: "Lifetime list"
  cacheBypass_axis :: "bool list"

text \<open>The constant \<open>testMatrix\<close> of lines 18-24 and \<open>secondsPerTest\<close> of line 26.\<close>

definition testMatrix :: TestMatrix where
  "testMatrix = \<lparr> numberServices_axis = [50, 100, 500, 1000],
                   maxInFlight_axis = [1000],
                   lifetimeType_axis = [TRANSIENT, SCOPED, SINGLETON],
                   cacheBypass_axis = [True, False] \<rparr>"

definition secondsPerTest :: rat where
  "secondsPerTest = 3"

text \<open>
  A JavaScript array whose elements are objects or arrays again, and
  \<open>Array.prototype.flat(depth)\<close>: an element that is an array is spliced in, flattened
  with \<open>depth - 1\<close>, as long as \<open>depth > 0\<close>; every other element is kept.
\<close>

datatype 'a js_elem = Obj 'a | Arr "'a js_elem list"

fun flat :: "nat \<Rightarrow> 'a js_elem list \<Rightarrow> 'a js_elem list" where
  "flat d [] = []"
| "flat d (Obj x # es) = Obj x # flat d es"
| "flat 0 (Arr xs # es) = Arr xs # flat 0 es"
| "flat (Suc d) (Arr xs # es) = flat d xs @ flat (Suc d) es"

text \<open>Lines 29-39: four nested \<open>map\<close>s, then \<open>.flat(4)\<close>.\<close>

definition testCasesOf :: "TestMatrix \<Rightarrow> rat \<Rightarrow> TestCase js_elem list" where
  "testCasesOf tm secs =
     flat 4
       (map (\<lambda>ns. Arr
         (map (\<lambda>mif. Arr
           (map (\<lambda>lt. Arr
             (map (\<lambda>cb. Obj \<lparr> numberServices = ns, maxInFlight = mif, lifetimeType = lt,
                                cacheBypass = cb, numberSeconds = secs \<rparr>)
               (cacheBypass_axis tm)))
             (lifetimeType_axis tm)))
           (maxInFlight_axis tm)))
         (numberServices_axis tm))"

text \<open>The object of line 34 for one combination of axis values.\<close>

definition mkTestCase :: "rat \<Rightarrow> nat \<times> nat \<times> Lifetime \<times> bool \<Rightarrow> TestCase" where
  "mkTestCase secs c =
     (case c of (ns, mif, lt, cb) \<Rightarrow>
        \<lparr> numberServices = ns, maxInFlight = mif, lifetimeType = lt, cacheBypass = cb,
          numberSeconds = secs \<rparr>)"

definition testCases :: "TestCase js_elem list" where
  "testCases = testCasesOf testMatrix secondsPerTest"

subsection \<open>Global variables and the mock classes (lines 41-44, 158-196)\<close>

text \<open>
  \<open>totalDiInitializations\<close> is declared without a value and assigned \<open>0\<close> by \<open>runTest\<close>
  before any constructor can run; the model leaves its first value open.
\<close>

record globals =
  totalDiInitializations :: nat
  mockLoggerIdCounter :: nat
  numberLogs :: nat

datatype error = AwilixResolutionError | TypeError

text \<open>
  Objects of the three classes. The fields are untyped, as in JavaScript: a constructor
  stores whatever the container hands it.
\<close>

datatype di_instance =
    MockLogger nat
  | MockRepositoryLayer di_instance
  | MockServiceLayer di_instance di_instance

text \<open>
  Number-to-string conversion of the template literals \<open>`mockRepository${index}`\<close> and
  \<open>`mockService${index}`\<close>: the decimal digits of the index.
\<close>

definition digit_char :: "nat \<Rightarrow> char" where
  "digit_char d = char_of (48 + d)"

lemma digit_char_values:
  "digit_char 0 = CHR ''0''" "digit_char (Suc 0) = CHR ''1''" "digit_char 1 = CHR ''1''"
  "digit_char 2 = CHR ''2''" "digit_char 3 = CHR ''3''" "digit_char 4 = CHR ''4''"
  "digit_char 5 = CHR ''5''" "digit_char 6 = CHR ''6''" "digit_char 7 = CHR ''7''"
  "digit_char 8 = CHR ''8''" "digit_char 9 = CHR ''9''"
  by (simp_all add: digit_char_def char_of_def bit_iff_odd)

fun string_of_nat :: "nat \<Rightarrow> string" where
  "string_of_nat n =
     (if n < 10 then [digit_char n] else string_of_nat (n div 10) @ [digit_char (n mod 10)])"

declare string_of_nat.simps [simp del]

definition mockRepositoryName :: "nat \<Rightarrow> string" where
  "mockRepositoryName index = ''mockRepository'' @ string_of_nat index"

definition mockServiceName :: "nat \<Rightarrow> string" where
  "mockServiceName index = ''mockService'' @ string_of_nat index"

subsection \<open>The container\<close>

text \<open>
  Modelled from the spec: the dependency-resolution container is the library awilix, which
  is not part of the script. Section 4.2 of the specification gives its contract:
  \<open>resolve\<close> constructs an entry on first resolution and returns the cached instance
  afterwards, where PER-CALL (\<open>TRANSIENT\<close>) entries are never cached, PER-SCOPE (\<open>SCOPED\<close>)
  entries are cached in the resolving scope and PROCESS-WIDE (\<open>SINGLETON\<close>) entries are
  cached for the whole life of the root resolver; \<open>createScope\<close> returns a child with a
  cache of its own that shares the PROCESS-WIDE instances; the cache can be inspected by
  name without construction. The state of a resolution is the global counters, the root
  container's cache and, when the resolving container is a scope, that scope's cache.
  A cache is a \<open>Map\<close> from names to instances, kept as an association list.
\<close>

type_synonym cache = "(string \<times> di_instance) list"

record heap =
  globals :: globals
  rootCache :: cache
  scopeCache :: "cache option"

text \<open>
  Modelled from the spec: the cache of the resolving container (written
  \<open>targetContainer.cache\<close> in the script): the scope's when there is one, else the root's.
\<close>

definition targetCache :: "heap \<Rightarrow> cache" where
  "targetCache h = (case scopeCache h of None \<Rightarrow> rootCache h | Some c \<Rightarrow> c)"

text \<open>Modelled from the spec: storing an instance in the cache of the resolving container.\<close>

definition targetCache_set :: "string \<Rightarrow> di_instance \<Rightarrow> heap \<Rightarrow> heap" where
  "targetCache_set name v h =
     (case scopeCache h of
        None \<Rightarrow> h\<lparr>rootCache := AList.update name v (rootCache h)\<rparr>
      | Some c \<Rightarrow> h\<lparr>scopeCache := Some (AList.update name v c)\<rparr>)"

text \<open>Modelled from the spec: \<open>createScope\<close>, a child container whose own cache is empty.\<close>

definition createScope :: "heap \<Rightarrow> heap" where
  "createScope h = h\<lparr>scopeCache := Some []\<rparr>"

text \<open>
  The factory functions that \<open>generateAwilixConfig\<close> registers (lines 205-207, 213-215
  and 230). \<open>mockServiceFn\<close> closes over the name of its repository.
\<close>

datatype factory = mockRepositoryFn | mockServiceFn string | loggerFn

type_synonym registration = "Lifetime \<times> factory"

text \<open>
  Modelled from the spec: the argument \<open>opts\<close> that the container passes to a factory.
  With the injection mode of line 223 it is the container's proxy: every read of
  \<open>opts[name]\<close> resolves \<open>name\<close>, which is how the entries depend on each other
  (Section 4.1 of the specification).
\<close>

type_synonym cradle = "string \<Rightarrow> heap \<Rightarrow> error + di_instance \<times> heap"

definition incInitializations :: "heap \<Rightarrow> heap" where
  "incInitializations h =
     h\<lparr>globals := (globals h)\<lparr>totalDiInitializations := totalDiInitializations (globals h) + 1\<rparr>\<rparr>"

text \<open>Lines 188-191.\<close>

definition new_MockLogger :: "heap \<Rightarrow> di_instance \<times> heap" where
  "new_MockLogger h =
     (let h1 = incInitializations h;
          g = globals h1
      in (MockLogger (mockLoggerIdCounter g),
          h1\<lparr>globals := g\<lparr>mockLoggerIdCounter := mockLoggerIdCounter g + 1\<rparr>\<rparr>))"

text \<open>Lines 174-177.\<close>

definition new_MockRepositoryLayer :: "cradle \<Rightarrow> heap \<Rightarrow> error + di_instance \<times> heap" where
  "new_MockRepositoryLayer opts h =
     (case opts ''logger'' (incInitializations h) of
        Inl e \<Rightarrow> Inl e
      | Inr (l, h') \<Rightarrow> Inr (MockRepositoryLayer l, h'))"

text \<open>Lines 160-164.\<close>

definition new_MockServiceLayer :: "cradle \<Rightarrow> string \<Rightarrow> heap \<Rightarrow> error + di_instance \<times> heap" where
  "new_MockServiceLayer opts repositoryName h =
     (case opts ''logger'' (incInitializations h) of
        Inl e \<Rightarrow> Inl e
      | Inr (l, h1) \<Rightarrow>
          (case opts repositoryName h1 of
             Inl e \<Rightarrow> Inl e
           | Inr (r, h2) \<Rightarrow> Inr (MockServiceLayer l r, h2)))"

definition callFactory :: "cradle \<Rightarrow> factory \<Rightarrow> heap \<Rightarrow> error + di_instance \<times> heap" where
  "callFactory opts f h =
     (case f of
        mockRepositoryFn \<Rightarrow> new_MockRepositoryLayer opts h
      | mockServiceFn repositoryName \<Rightarrow> new_MockServiceLayer opts repositoryName h
      | loggerFn \<Rightarrow> Inr (new_MockLogger h))"

lemma callFactory_cong [fundef_cong]:
  "(\<And>n k. opts n k = opts' n k) \<Longrightarrow> f = f' \<Longrightarrow> h = h' \<Longrightarrow>
   callFactory opts f h = callFactory opts' f' h'"
proof -
  assume "\<And>n k. opts n k = opts' n k" and "f = f'" and "h = h'"
  then have "opts = opts'"
    by (intro ext)
  with \<open>f = f'\<close> \<open>h = h'\<close> show ?thesis
    by simp
qed

text \<open>Pushing a registered name that is not on the stack leaves fewer names to resolve.\<close>

lemma resolve_measure_decreases:
  assumes "map_of regs name = Some r" and "name \<notin> set stack"
  shows "card (fst ` set regs - insert name (set stack)) < card (fst ` set regs - set stack)"
proof -
  from assms(1) have "name \<in> fst ` set regs"
    by (metis map_of_eq_None_iff option.distinct(1))
  with assms(2) have "fst ` set regs - insert name (set stack) \<subset> fst ` set regs - set stack"
    by auto
  then show ?thesis
    by (intro psubset_card_mono) auto
qed

text \<open>
  Modelled from the spec: \<open>resolve\<close>. A name without registration cannot be resolved; a
  name that is already being resolved further up (the resolution stack) is a cyclic
  dependency, which the container reports as an error. Otherwise the lifetime decides:
  never cached, cached in the root container, or cached in the resolving container.
\<close>

function resolve ::
  "(string \<times> registration) list \<Rightarrow> string list \<Rightarrow> string \<Rightarrow> heap \<Rightarrow> error + di_instance \<times> heap"
where
  "resolve regs stack name h =
     (case map_of regs name of
        None \<Rightarrow> Inl AwilixResolutionError
      | Some (lifetime, fn) \<Rightarrow>
          if name \<in> set stack then Inl AwilixResolutionError
          else
            (case lifetime of
               TRANSIENT \<Rightarrow> callFactory (resolve regs (name # stack)) fn h
             | SINGLETON \<Rightarrow>
                 (case map_of (rootCache h) name of
                    Some v \<Rightarrow> Inr (v, h)
                  | None \<Rightarrow>
                      (case callFactory (resolve regs (name # stack)) fn h of
                         Inl e \<Rightarrow> Inl e
                       | Inr (v, h') \<Rightarrow> Inr (v, h'\<lparr>rootCache := AList.update name v (rootCache h')\<rparr>)))
             | SCOPED \<Rightarrow>
                 (case map_of (targetCache h) name of
                    Some v \<Rightarrow> Inr (v, h)
                  | None \<Rightarrow>
                      (case callFactory (resolve regs (name # stack)) fn h of
                         Inl e \<Rightarrow> Inl e
                       | Inr (v, h') \<Rightarrow> Inr (v, targetCache_set name v h')))))"
  by pat_completeness auto
termination
  by (relation "measure (\<lambda>(regs, stack, name, h). card (fst ` set regs - set stack))")
     (simp_all add: resolve_measure_decreases)

declare resolve.simps [simp del]

subsection \<open>\<open>generateAwilixConfig\<close> (lines 198-239)\<close>

text \<open>
  A JavaScript object with string keys is an association list in insertion order;
  assigning a key that exists keeps its place (\<open>AList.update\<close>).
\<close>

text \<open>Lines 204-218, the body of the \<open>for\<close> loop.\<close>

definition registerMocks ::
  "Lifetime \<Rightarrow> nat \<Rightarrow>
   (string \<times> registration) list \<times> (string \<times> registration) list \<Rightarrow>
   (string \<times> registration) list \<times> (string \<times> registration) list" where
  "registerMocks lifetime index objs =
     (case objs of (mockRepositories, mockServices) \<Rightarrow>
        (AList.update (mockRepositoryName index) (lifetime, mockRepositoryFn) mockRepositories,
         AList.update (mockServiceName index) (lifetime, mockServiceFn (mockRepositoryName index))
           mockServices))"

text \<open>Object spread \<open>{...src}\<close> into an object under construction.\<close>

definition spread ::
  "(string \<times> registration) list \<Rightarrow> (string \<times> registration) list \<Rightarrow> (string \<times> registration) list"
where
  "spread src target = fold (\<lambda>(k, v). AList.update k v) src target"

text \<open>
  The result is the registrations of the new container (whose cache is empty) and
  \<open>Object.keys(mockServices)\<close>.
\<close>

definition generateAwilixConfig ::
  "nat \<Rightarrow> Lifetime \<Rightarrow> (string \<times> registration) list \<times> string list" where
  "generateAwilixConfig numberOfServices lifetime =
     (case fold (registerMocks lifetime) [0..<numberOfServices] ([], []) of
        (mockRepositories, mockServices) \<Rightarrow>
          (AList.update ''logger'' (lifetime, loggerFn)
             (spread mockServices (spread mockRepositories [])),
           map fst mockServices))"

subsection \<open>The asynchronous actions (lines 166-169, 179-183, 193-195)\<close>

text \<open>
  \<open>doLog\<close> exists on a \<open>MockLogger\<close> only; calling it on another object is a
  \<open>TypeError\<close> (\<open>None\<close>).
\<close>

fun doLog :: "di_instance \<Rightarrow> globals \<Rightarrow> globals option" where
  "doLog (MockLogger i) g = Some (g\<lparr>numberLogs := numberLogs g + 1\<rparr>)"
| "doLog (MockRepositoryLayer l) g = None"
| "doLog (MockServiceLayer l r) g = None"

text \<open>
  The promise an \<open>async\<close> method returns, seen from its caller: the number of promise
  jobs after which it settles (\<open>0\<close>: it is settled when the call returns) and whether it
  is then fulfilled (\<open>True\<close>) or rejected (\<open>False\<close>).
\<close>

datatype action_promise = SettlesAfter nat bool

text \<open>
  \<open>mockAction\<close> runs synchronously up to its first \<open>await\<close>. The repository logs and
  returns; the service logs, calls the repository and awaits its promise, which costs one
  promise job. An exception inside an \<open>async\<close> method rejects its promise. A
  \<open>MockLogger\<close> has no such method (\<open>None\<close>). The argument \<open>x\<close> only scales a random
  number that no caller reads.
\<close>

fun mockAction :: "di_instance \<Rightarrow> nat \<Rightarrow> globals \<Rightarrow> (action_promise \<times> globals) option" where
  "mockAction (MockLogger i) x g = None"
| "mockAction (MockRepositoryLayer l) x g =
     (case doLog l g of
        None \<Rightarrow> Some (SettlesAfter 0 False, g)
      | Some g' \<Rightarrow> Some (SettlesAfter 0 True, g'))"
| "mockAction (MockServiceLayer l r) x g =
     (case doLog l g of
        None \<Rightarrow> Some (SettlesAfter 0 False, g)
      | Some g1 \<Rightarrow>
          (case mockAction r x g1 of
             None \<Rightarrow> Some (SettlesAfter 0 False, g1)
           | Some (SettlesAfter d ok, g2) \<Rightarrow> Some (SettlesAfter (Suc d) ok, g2)))"

subsection \<open>The state of \<open>runTest\<close> and the promise jobs\<close>

datatype promise_state = Pending | Fulfilled | Rejected

text \<open>
  A promise job (microtask) of request \<open>n\<close>: the continuation of a \<open>mockAction\<close> that
  awaits, with the number of awaits still to follow, or the reaction that
  \<open>.then(...)\<close> of line 112 registered, with the outcome of the action.
\<close>

datatype job = ResumeMockAction nat nat bool | ThenReaction nat bool

text \<open>
  The local variables of lines 75-81, the container's caches and the globals (\<open>store\<close>),
  and the job queue. \<open>unresolvedPromises\<close> is a \<open>Map\<close>, in insertion order; the value
  of an entry is a promise, of which the model keeps the state.
\<close>

record run_state =
  store :: heap
  unresolvedPromises :: "(nat \<times> promise_state) list"
  resolvedResults :: nat
  resolveCacheHits :: nat
  maxInFlightHit :: bool
  requestNumber :: nat
  msSpentResolving :: nat
  microtasks :: "job list"

definition enqueue :: "job \<Rightarrow> run_state \<Rightarrow> run_state" where
  "enqueue j s = s\<lparr>microtasks := microtasks s @ [j]\<rparr>"

text \<open>The promise stored under key \<open>n\<close>, if the map still holds it, changes its state.\<close>

definition settle :: "nat \<Rightarrow> promise_state \<Rightarrow> run_state \<Rightarrow> run_state" where
  "settle n st s = s\<lparr>unresolvedPromises := AList.map_entry n (\<lambda>_. st) (unresolvedPromises s)\<rparr>"

text \<open>
  Running one job. The callback of lines 112-115 increments \<open>resolvedResults\<close>; its
  second statement, \<open>unresolvedPromises.delete[requestNumber]\<close>, reads a property of the
  function \<open>delete\<close> and calls nothing, so the map keeps every entry. After the callback
  the promise that \<open>.then\<close> returned is fulfilled. A rejected action skips the callback
  and rejects that promise.
\<close>

fun runJob :: "job \<Rightarrow> run_state \<Rightarrow> run_state" where
  "runJob (ResumeMockAction n 0 ok) s = enqueue (ThenReaction n ok) s"
| "runJob (ResumeMockAction n (Suc d) ok) s = enqueue (ResumeMockAction n d ok) s"
| "runJob (ThenReaction n True) s =
     settle n Fulfilled (s\<lparr>resolvedResults := resolvedResults s + 1\<rparr>)"
| "runJob (ThenReaction n False) s = settle n Rejected s"

text \<open>
  \<open>unresolvedPromises.entries().next()\<close> of line 122: an iterator result object
  \<open>{value, done}\<close> whose value is the first entry of the map, a pair of key and promise.
\<close>

datatype iterator_result = IteratorResult "(nat \<times> promise_state) option" bool

definition entries_next :: "(nat \<times> promise_state) list \<Rightarrow> iterator_result" where
  "entries_next m = (case m of [] \<Rightarrow> IteratorResult None True | e # _ \<Rightarrow> IteratorResult (Some e) False)"

text \<open>
  \<open>await\<close> of a value that is not a promise (line 123: an iterator result object has no
  \<open>then\<close>): the continuation of \<open>runTest\<close> is queued behind the jobs that are in the
  queue now. Those run in order; the jobs they enqueue stay queued behind the
  continuation.
\<close>

definition await_value :: "iterator_result \<Rightarrow> run_state \<Rightarrow> run_state" where
  "await_value v s = fold runJob (microtasks s) (s\<lparr>microtasks := []\<rparr>)"

subsection \<open>\<open>runTest\<close> (lines 65-143)\<close>

text \<open>
  What one iteration reads from the environment: the index that
  \<open>Math.floor(Math.random() * mockServiceNames.length)\<close> yields, and differences of clock
  readings in milliseconds: line 109, line 126 and, if the loop ends here, line 130.
\<close>

record iter_env =
  randomServiceIndex :: nat
  timeToResolveMs :: nat
  msElapsed :: nat
  msElapsedAtReturn :: nat

text \<open>
  Modelled from the spec: resolution by the name read from \<open>mockServiceNames\<close>, which is
  \<open>undefined\<close> (\<open>None\<close>) beyond the end of the array; the container cannot resolve
  \<open>undefined\<close>.
\<close>

definition container_resolve ::
  "(string \<times> registration) list \<Rightarrow> string option \<Rightarrow> heap \<Rightarrow> error + di_instance \<times> heap" where
  "container_resolve regs name h =
     (case name of None \<Rightarrow> Inl AwilixResolutionError | Some n \<Rightarrow> resolve regs [] n h)"

text \<open>Modelled from the spec: \<open>targetContainer.cache.get(name)\<close>.\<close>

definition cache_get :: "heap \<Rightarrow> string option \<Rightarrow> di_instance option" where
  "cache_get h name = (case name of None \<Rightarrow> None | Some n \<Rightarrow> map_of (targetCache h) n)"

text \<open>Lines 96-107. The result is the service, \<open>resolveCacheHits\<close> and the store.\<close>

definition resolveService ::
  "bool \<Rightarrow> (string \<times> registration) list \<Rightarrow> string option \<Rightarrow> nat \<Rightarrow> heap \<Rightarrow>
   error + di_instance \<times> nat \<times> heap" where
  "resolveService bypass regs randomServiceName hits h =
     (if bypass then
        (case cache_get h randomServiceName of
           Some cacheResult \<Rightarrow> Inr (cacheResult, hits + 1, h)
         | None \<Rightarrow>
             (case container_resolve regs randomServiceName h of
                Inl e \<Rightarrow> Inl e
              | Inr (v, h') \<Rightarrow> Inr (v, hits, h')))
      else
        (case container_resolve regs randomServiceName h of
           Inl e \<Rightarrow> Inl e
         | Inr (v, h') \<Rightarrow> Inr (v, hits, h')))"

text \<open>
  Lines 112-117: the job that the action or \<open>.then\<close> enqueues, and the new map entry,
  the pending promise that \<open>.then\<close> returned.
\<close>

definition recordPromise :: "action_promise \<Rightarrow> run_state \<Rightarrow> run_state" where
  "recordPromise p s =
     (case p of SettlesAfter d ok \<Rightarrow>
        (enqueue (case d of 0 \<Rightarrow> ThenReaction (requestNumber s) ok
                  | Suc d' \<Rightarrow> ResumeMockAction (requestNumber s) d' ok) s)
        \<lparr>unresolvedPromises := AList.update (requestNumber s) Pending (unresolvedPromises s)\<rparr>)"

text \<open>Lines 119-124.\<close>

definition forceResolution :: "nat \<Rightarrow> run_state \<Rightarrow> run_state" where
  "forceResolution maxInFlight' s =
     (if length (unresolvedPromises s) \<ge> maxInFlight' then
        (let s' = s\<lparr>maxInFlightHit := True\<rparr>;
             oldestEntry = entries_next (unresolvedPromises s')
         in await_value oldestEntry s')
      else s)"

text \<open>Lines 87-124, the body of the loop up to the test of the clock.\<close>

definition iteration ::
  "TestCase \<Rightarrow> (string \<times> registration) list \<Rightarrow> string list \<Rightarrow> iter_env \<Rightarrow> run_state \<Rightarrow>
   error + run_state" where
  "iteration opts regs mockServiceNames env s0 =
     (let s1 = s0\<lparr>requestNumber := requestNumber s0 + 1\<rparr>;
          targetContainer =
            (if lifetimeType opts = SCOPED then createScope (store s1)
             else (store s1)\<lparr>scopeCache := None\<rparr>);
          randomServiceName =
            (if randomServiceIndex env < length mockServiceNames
             then Some (mockServiceNames ! randomServiceIndex env) else None)
      in case resolveService (cacheBypass opts) regs randomServiceName (resolveCacheHits s1)
                targetContainer of
           Inl e \<Rightarrow> Inl e
         | Inr (randomService, hits, h) \<Rightarrow>
             (case mockAction randomService (requestNumber s1) (globals h) of
                None \<Rightarrow> Inl TypeError
              | Some (p, g) \<Rightarrow>
                  Inr (forceResolution (maxInFlight opts)
                         (recordPromise p
                            (s1\<lparr>store := h\<lparr>globals := g\<rparr>,
                                resolveCacheHits := hits,
                                msSpentResolving := msSpentResolving s1 + timeToResolveMs env\<rparr>)))))"

text \<open>
  The \<open>while (true)\<close> loop with the \<open>break\<close> of line 127. The environment is a finite
  list of observations, one per iteration; \<open>None\<close> says that the loop is still running
  when the observations end. The result is the state at the \<open>break\<close> and the
  observations of the last iteration.
\<close>

fun loop ::
  "TestCase \<Rightarrow> (string \<times> registration) list \<Rightarrow> string list \<Rightarrow> iter_env list \<Rightarrow> run_state \<Rightarrow>
   (error + run_state \<times> iter_env) option" where
  "loop opts regs names [] s = None"
| "loop opts regs names (env # envs) s =
     (case iteration opts regs names env s of
        Inl e \<Rightarrow> Some (Inl e)
      | Inr s' \<Rightarrow>
          if of_nat (msElapsed env) / 1000 > numberSeconds opts then Some (Inr (s', env))
          else loop opts regs names envs s')"

text \<open>
  The state after one iteration per observation, whatever the clock says. Every state in
  which the loop ends an iteration is of this form, for a prefix of the observations.
\<close>

fun iterations ::
  "TestCase \<Rightarrow> (string \<times> registration) list \<Rightarrow> string list \<Rightarrow> iter_env list \<Rightarrow> run_state \<Rightarrow>
   error + run_state" where
  "iterations opts regs names [] s = Inr s"
| "iterations opts regs names (env # envs) s =
     (case iteration opts regs names env s of
        Inl e \<Rightarrow> Inl e
      | Inr s' \<Rightarrow> iterations opts regs names envs s')"

text \<open>The object returned by lines 133-142.\<close>

record RunResult =
  r_maxInFlightHit :: bool
  r_requestNumber :: nat
  r_resolveCacheHits :: nat
  r_numberLogs :: nat
  r_resolvedResults :: nat
  r_totalSeconds :: rat
  r_totalSecondsResolving :: rat
  r_totalDiInitializations :: nat

text \<open>Lines 73-84: the fresh container and the variables before the loop.\<close>

definition initialState :: "globals \<Rightarrow> run_state" where
  "initialState g =
     \<lparr> store = \<lparr> globals = g\<lparr>numberLogs := 0, totalDiInitializations := 0\<rparr>,
                 rootCache = [], scopeCache = None \<rparr>,
       unresolvedPromises = [],
       resolvedResults = 0,
       resolveCacheHits = 0,
       maxInFlightHit = False,
       requestNumber = 0,
       msSpentResolving = 0,
       microtasks = [] \<rparr>"

definition report :: "run_state \<Rightarrow> iter_env \<Rightarrow> RunResult" where
  "report s env =
     \<lparr> r_maxInFlightHit = maxInFlightHit s,
       r_requestNumber = requestNumber s,
       r_resolveCacheHits = resolveCacheHits s,
       r_numberLogs = numberLogs (globals (store s)),
       r_resolvedResults = resolvedResults s,
       r_totalSeconds = of_nat (msElapsedAtReturn env) / 1000,
       r_totalSecondsResolving = of_nat (msSpentResolving s) / 1000,
       r_totalDiInitializations = totalDiInitializations (globals (store s)) \<rparr>"

text \<open>
  \<open>runTest\<close> returns its result and leaves the globals changed. The promise jobs still
  queued when it returns belong to this run; they change its local variables only.
\<close>

definition runTest ::
  "TestCase \<Rightarrow> iter_env list \<Rightarrow> globals \<Rightarrow> (error + RunResult \<times> globals) option" where
  "runTest opts envs g =
     (case generateAwilixConfig (numberServices opts) (lifetimeType opts) of
        (regs, mockServiceNames) \<Rightarrow>
          (case loop opts regs mockServiceNames envs (initialState g) of
             None \<Rightarrow> None
           | Some (Inl e) \<Rightarrow> Some (Inl e)
           | Some (Inr (s, env)) \<Rightarrow> Some (Inr (report s env, globals (store s)))))"

text \<open>
  Observations under which a run comes to its end: every random index is below the number
  of services, as \<open>Math.floor(Math.random() * mockServiceNames.length)\<close> is when there
  is a service, and in some iteration the clock has passed the duration.
\<close>

definition adequate :: "TestCase \<Rightarrow> iter_env list \<Rightarrow> bool" where
  "adequate opts envs \<longleftrightarrow>
     (\<forall>e \<in> set envs. randomServiceIndex e < numberServices opts) \<and>
     (\<exists>e \<in> set envs. numberSeconds opts < of_nat (msElapsed e) / 1000)"

subsection \<open>\<open>main\<close> (lines 47-62)\<close>

text \<open>
  The loop over the test cases, with one list of observations per run. An element of
  \<open>testCases\<close> that were still an array would have no fields: no service is registered,
  and the first resolution fails. The list returned is what line 61 writes to the file.
\<close>

fun runAll ::
  "TestCase js_elem list \<Rightarrow> iter_env list list \<Rightarrow> globals \<Rightarrow> (TestCase \<times> RunResult) list \<Rightarrow>
   (error + (TestCase \<times> RunResult) list) option" where
  "runAll [] envss g results = Some (Inr results)"
| "runAll (testCase # rest) [] g results = None"
| "runAll (Arr xs # rest) (envs # envss) g results = Some (Inl AwilixResolutionError)"
| "runAll (Obj testCase # rest) (envs # envss) g results =
     (case runTest testCase envs g of
        None \<Rightarrow> None
      | Some (Inl e) \<Rightarrow> Some (Inl e)
      | Some (Inr (result, g')) \<Rightarrow> runAll rest envss g' (results @ [(testCase, result)]))"

definition runMatrix ::
  "TestMatrix \<Rightarrow> rat \<Rightarrow> iter_env list list \<Rightarrow> globals \<Rightarrow> (error + (TestCase \<times> RunResult) list) option"
where
  "runMatrix tm secs envss g = runAll (testCasesOf tm secs) envss g []"

definition main ::
  "iter_env list list \<Rightarrow> globals \<Rightarrow> (error + (TestCase \<times> RunResult) list) option" where
  "main envss g = runMatrix testMatrix secondsPerTest envss g"

subsection \<open>Sample inputs\<close>

text \<open>
  A run over two services that breaks in its third iteration, from globals that an
  earlier run has left behind.
\<close>

definition demo_globals :: globals where
  "demo_globals = \<lparr> totalDiInitializations = 7, mockLoggerIdCounter = 1, numberLogs = 5 \<rparr>"

definition demo_envs :: "iter_env list" where
  "demo_envs =
     [\<lparr> randomServiceIndex = 0, timeToResolveMs = 1, msElapsed = 1000, msElapsedAtReturn = 1000 \<rparr>,
      \<lparr> randomServiceIndex = 1, timeToResolveMs = 1, msElapsed = 2000, msElapsedAtReturn = 2000 \<rparr>,
      \<lparr> randomServiceIndex = 0, timeToResolveMs = 1, msElapsed = 3001, msElapsedAtReturn = 3002 \<rparr>]"

definition demo_case :: "Lifetime \<Rightarrow> bool \<Rightarrow> TestCase" where
  "demo_case lifetime bypass =
     \<lparr> numberServices = 2, maxInFlight = 1, lifetimeType = lifetime, cacheBypass = bypass,
       numberSeconds = 3 \<rparr>"

text \<open>A run of three iterations that picks the first service every time.\<close>

definition demo_envs_same :: "iter_env list" where
  "demo_envs_same =
     [\<lparr> randomServiceIndex = 0, timeToResolveMs = 1, msElapsed = 1000, msElapsedAtReturn = 1000 \<rparr>,
      \<lparr> randomServiceIndex = 0, timeToResolveMs = 1, msElapsed = 2000, msElapsedAtReturn = 2000 \<rparr>,
      \<lparr> randomServiceIndex = 0, timeToResolveMs = 1, msElapsed = 3001, msElapsedAtReturn = 3002 \<rparr>]"

text \<open>A run of four iterations.\<close>

definition demo_envs_long :: "iter_env list" where
  "demo_envs_long =
     [\<lparr> randomServiceIndex = 0, timeToResolveMs = 1, msElapsed = 1000, msElapsedAtReturn = 1000 \<rparr>,
      \<lparr> randomServiceIndex = 1, timeToResolveMs = 1, msElapsed = 2000, msElapsedAtReturn = 2000 \<rparr>,
      \<lparr> randomServiceIndex = 0, timeToResolveMs = 1, msElapsed = 2500, msElapsedAtReturn = 2500 \<rparr>,
      \<lparr> randomServiceIndex = 1, timeToResolveMs = 1, msElapsed = 3001, msElapsedAtReturn = 3002 \<rparr>]"

text \<open>A matrix of two test cases.\<close>

definition demo_matrix :: TestMatrix where
  "demo_matrix = \<lparr> numberServices_axis = [2], maxInFlight_axis = [1],
                    lifetimeType_axis = [TRANSIENT, SINGLETON], cacheBypass_axis = [True] \<rparr>"

text \<open>The store after the first iteration of the sample run with singletons.\<close>

definition demo_service :: di_instance where
  "demo_service = MockServiceLayer (MockLogger 1) (MockRepositoryLayer (MockLogger 1))"

definition demo_store :: heap where
  "demo_store =
     \<lparr> globals = \<lparr> totalDiInitializations = 3, mockLoggerIdCounter = 2, numberLogs = 2 \<rparr>,
       rootCache = [(''logger'', MockLogger 1),
                    (''mockRepository0'', MockRepositoryLayer (MockLogger 1)),
                    (''mockService0'', demo_service)],
       scopeCache = None \<rparr>"

text \<open>Unfolding these equations evaluates the model on a concrete input.\<close>

lemmas eval_defs = runTest_def generateAwilixConfig_def registerMocks_def spread_def
  mockRepositoryName_def mockServiceName_def string_of_nat.simps digit_char_values
  initialState_def iteration_def resolveService_def cache_get_def container_resolve_def
  targetCache_def targetCache_set_def createScope_def resolve.simps callFactory_def
  new_MockServiceLayer_def new_MockRepositoryLayer_def new_MockLogger_def incInitializations_def
  recordPromise_def forceResolution_def await_value_def entries_next_def enqueue_def settle_def
  report_def Let_def demo_case_def demo_envs_def demo_envs_same_def demo_envs_long_def
  demo_globals_def upt_rec

subsection \<open>Auxiliary notions of the proofs\<close>

text \<open>The registrations of the loop of lines 203-219, entry by entry.\<close>

definition repositoryEntry :: "Lifetime \<Rightarrow> nat \<Rightarrow> string \<times> registration" where
  "repositoryEntry lifetime i = (mockRepositoryName i, lifetime, mockRepositoryFn)"

definition serviceEntry :: "Lifetime \<Rightarrow> nat \<Rightarrow> string \<times> registration" where
  "serviceEntry lifetime i = (mockServiceName i, lifetime, mockServiceFn (mockRepositoryName i))"

text \<open>
  With lifetime \<open>SINGLETON\<close> the root cache holds, once the services with indices \<open>P\<close>
  have been resolved, these services, their repositories and the logger, and the number
  of constructions is the number of these entries.
\<close>

definition cachedKeys :: "heap \<Rightarrow> string set" where
  "cachedKeys h = fst ` set (rootCache h)"

definition singletonKeys :: "nat set \<Rightarrow> string set" where
  "singletonKeys P =
     (if P = {} then {} else {''logger''}) \<union> mockServiceName ` P \<union> mockRepositoryName ` P"

definition singletonInv :: "nat set \<Rightarrow> heap \<Rightarrow> bool" where
  "singletonInv P h \<longleftrightarrow>
     cachedKeys h = singletonKeys P \<and>
     totalDiInitializations (globals h) = (if P = {} then 0 else 2 * card P + 1)"

text \<open>
  What keeps a run going: an object found in the cache under the name of a service is a
  service, so that it has the method \<open>mockAction\<close>.
\<close>

fun isService :: "di_instance \<Rightarrow> bool" where
  "isService (MockServiceLayer l r) = True"
| "isService (MockRepositoryLayer l) = False"
| "isService (MockLogger i) = False"

definition servicesCached :: "heap \<Rightarrow> bool" where
  "servicesCached h \<longleftrightarrow>
     (\<forall>i v. map_of (rootCache h) (mockServiceName i) = Some v \<longrightarrow> isService v)"

definition runInv :: "Lifetime \<Rightarrow> heap \<Rightarrow> bool" where
  "runInv lifetime h \<longleftrightarrow>
     (lifetime = TRANSIENT \<longrightarrow> rootCache h = []) \<and>
     (lifetime = SINGLETON \<longrightarrow> servicesCached h)"

section \<open>Basic facts\<close>

subsection \<open>What the promise jobs change\<close>

lemma enqueue_simps [simp]:
  "microtasks (enqueue j s) = microtasks s @ [j]"
  "store (enqueue j s) = store s"
  "unresolvedPromises (enqueue j s) = unresolvedPromises s"
  "resolvedResults (enqueue j s) = resolvedResults s"
  "resolveCacheHits (enqueue j s) = resolveCacheHits s"
  "maxInFlightHit (enqueue j s) = maxInFlightHit s"
  "requestNumber (enqueue j s) = requestNumber s"
  "msSpentResolving (enqueue j s) = msSpentResolving s"
  by (simp_all add: enqueue_def)

lemma map_fst_map_entry: "map fst (AList.map_entry k f xs) = map fst xs"
  by (induction xs) auto

lemma settle_simps [simp]:
  "microtasks (settle n st s) = microtasks s"
  "store (settle n st s) = store s"
  "map fst (unresolvedPromises (settle n st s)) = map fst (unresolvedPromises s)"
  "length (unresolvedPromises (settle n st s)) = length (unresolvedPromises s)"
  "resolvedResults (settle n st s) = resolvedResults s"
  "resolveCacheHits (settle n st s) = resolveCacheHits s"
  "maxInFlightHit (settle n st s) = maxInFlightHit s"
  "requestNumber (settle n st s) = requestNumber s"
  "msSpentResolving (settle n st s) = msSpentResolving s"
proof -
  show "map fst (unresolvedPromises (settle n st s)) = map fst (unresolvedPromises s)"
    by (simp add: settle_def map_fst_map_entry)
  then show "length (unresolvedPromises (settle n st s)) = length (unresolvedPromises s)"
    by (metis length_map)
qed (simp_all add: settle_def)

lemma runJob_frame:
  "store (runJob j s) = store s"
  "map fst (unresolvedPromises (runJob j s)) = map fst (unresolvedPromises s)"
  "resolveCacheHits (runJob j s) = resolveCacheHits s"
  "maxInFlightHit (runJob j s) = maxInFlightHit s"
  "requestNumber (runJob j s) = requestNumber s"
  "msSpentResolving (runJob j s) = msSpentResolving s"
  by (induction j s rule: runJob.induct; simp)+

lemma runJob_progress:
  "resolvedResults (runJob j s) + length (microtasks (runJob j s))
     \<le> Suc (resolvedResults s + length (microtasks s))"
  by (induction j s rule: runJob.induct) simp_all

lemma fold_runJob_frame:
  "store (fold runJob js s) = store s"
  "map fst (unresolvedPromises (fold runJob js s)) = map fst (unresolvedPromises s)"
  "resolveCacheHits (fold runJob js s) = resolveCacheHits s"
  "maxInFlightHit (fold runJob js s) = maxInFlightHit s"
  "requestNumber (fold runJob js s) = requestNumber s"
  "msSpentResolving (fold runJob js s) = msSpentResolving s"
  by (induction js arbitrary: s; simp add: runJob_frame)+

lemma fold_runJob_progress:
  "resolvedResults (fold runJob js s) + length (microtasks (fold runJob js s))
     \<le> resolvedResults s + length (microtasks s) + length js"
proof (induction js arbitrary: s)
  case Nil
  show ?case by simp
next
  case (Cons j js)
  have "resolvedResults (fold runJob js (runJob j s)) + length (microtasks (fold runJob js (runJob j s)))
        \<le> resolvedResults (runJob j s) + length (microtasks (runJob j s)) + length js"
    by (rule Cons.IH)
  also have "\<dots> \<le> Suc (resolvedResults s + length (microtasks s)) + length js"
    using runJob_progress [of j s] by simp
  finally show ?case by simp
qed

lemma await_value_frame:
  "store (await_value v s) = store s"
  "map fst (unresolvedPromises (await_value v s)) = map fst (unresolvedPromises s)"
  "resolveCacheHits (await_value v s) = resolveCacheHits s"
  "maxInFlightHit (await_value v s) = maxInFlightHit s"
  "requestNumber (await_value v s) = requestNumber s"
  "msSpentResolving (await_value v s) = msSpentResolving s"
  by (simp_all add: await_value_def fold_runJob_frame)

lemma await_value_progress:
  "resolvedResults (await_value v s) + length (microtasks (await_value v s))
     \<le> resolvedResults s + length (microtasks s)"
  using fold_runJob_progress [of "microtasks s" "s\<lparr>microtasks := []\<rparr>"]
  by (simp add: await_value_def)

lemma forceResolution_frame:
  "store (forceResolution m s) = store s"
  "map fst (unresolvedPromises (forceResolution m s)) = map fst (unresolvedPromises s)"
  "resolveCacheHits (forceResolution m s) = resolveCacheHits s"
  "requestNumber (forceResolution m s) = requestNumber s"
  "msSpentResolving (forceResolution m s) = msSpentResolving s"
  by (simp_all add: forceResolution_def Let_def await_value_frame)

lemma forceResolution_progress:
  "resolvedResults (forceResolution m s) + length (microtasks (forceResolution m s))
     \<le> resolvedResults s + length (microtasks s)"
  using await_value_progress [of "entries_next (unresolvedPromises s)" "s\<lparr>maxInFlightHit := True\<rparr>"]
  by (simp add: forceResolution_def Let_def)

lemma recordPromise_frame:
  "store (recordPromise p s) = store s"
  "unresolvedPromises (recordPromise p s) = AList.update (requestNumber s) Pending (unresolvedPromises s)"
  "resolveCacheHits (recordPromise p s) = resolveCacheHits s"
  "resolvedResults (recordPromise p s) = resolvedResults s"
  "maxInFlightHit (recordPromise p s) = maxInFlightHit s"
  "requestNumber (recordPromise p s) = requestNumber s"
  "msSpentResolving (recordPromise p s) = msSpentResolving s"
  "length (microtasks (recordPromise p s)) = Suc (length (microtasks s))"
  by (cases p; simp add: recordPromise_def)+


lemma iteration_InrE:
  assumes "iteration opts regs names env s = Inr s'"
  obtains randomService hits h p g where
    "resolveService (cacheBypass opts) regs
       (if randomServiceIndex env < length names then Some (names ! randomServiceIndex env) else None)
       (resolveCacheHits s)
       (if lifetimeType opts = SCOPED then createScope (store s) else (store s)\<lparr>scopeCache := None\<rparr>)
     = Inr (randomService, hits, h)"
    "mockAction randomService (Suc (requestNumber s)) (globals h) = Some (p, g)"
    "s' = forceResolution (maxInFlight opts)
            (recordPromise p
               (s\<lparr>requestNumber := Suc (requestNumber s),
                   store := h\<lparr>globals := g\<rparr>,
                   resolveCacheHits := hits,
                   msSpentResolving := msSpentResolving s + timeToResolveMs env\<rparr>))"
  using assms
  by (auto simp: iteration_def Let_def split: sum.splits option.splits if_splits)

lemma iteration_requestNumber:
  "iteration opts regs names env s = Inr s' \<Longrightarrow> requestNumber s' = Suc (requestNumber s)"
  by (erule iteration_InrE) (simp add: forceResolution_frame recordPromise_frame)

lemma iteration_keys:
  "iteration opts regs names env s = Inr s' \<Longrightarrow>
   map fst (unresolvedPromises s') =
     map fst (AList.update (Suc (requestNumber s)) Pending (unresolvedPromises s))"
  by (erule iteration_InrE) (simp add: forceResolution_frame recordPromise_frame)

lemma iteration_progress:
  assumes "iteration opts regs names env s = Inr s'"
  shows "resolvedResults s' + length (microtasks s') \<le> Suc (resolvedResults s + length (microtasks s))"
  using assms
proof (rule iteration_InrE)
  fix randomService hits h p g
  assume s': "s' = forceResolution (maxInFlight opts)
            (recordPromise p
               (s\<lparr>requestNumber := Suc (requestNumber s),
                   store := h\<lparr>globals := g\<rparr>,
                   resolveCacheHits := hits,
                   msSpentResolving := msSpentResolving s + timeToResolveMs env\<rparr>))"
  show ?thesis
    unfolding s'
    by (rule order_trans [OF forceResolution_progress]) (simp add: recordPromise_frame)
qed

lemma iterations_requestNumber:
  "iterations opts regs names envs s = Inr s' \<Longrightarrow>
   requestNumber s' = requestNumber s + length envs"
proof (induction envs arbitrary: s)
  case Nil
  then show ?case by simp
next
  case (Cons env envs)
  then show ?case
    by (auto split: sum.splits dest!: iteration_requestNumber)
qed

lemma iterations_progress:
  "iterations opts regs names envs s = Inr s' \<Longrightarrow>
   resolvedResults s' + length (microtasks s')
     \<le> resolvedResults s + length (microtasks s) + length envs"
proof (induction envs arbitrary: s)
  case Nil
  then show ?case by simp
next
  case (Cons env envs)
  from Cons.prems obtain t where t: "iteration opts regs names env s = Inr t"
    and rest: "iterations opts regs names envs t = Inr s'"
    by (auto split: sum.splits)
  from Cons.IH [OF rest] iteration_progress [OF t] show ?case
    by simp
qed

lemma loop_iterations:
  "loop opts regs names envs s = Some (Inr (s', env)) \<Longrightarrow>
   \<exists>n < length envs. iterations opts regs names (take (Suc n) envs) s = Inr s' \<and> env = envs ! n
      \<and> numberSeconds opts < of_nat (msElapsed env) / 1000"
proof (induction envs arbitrary: s)
  case Nil
  then show ?case by simp
next
  case (Cons e envs)
  from Cons.prems obtain t where t: "iteration opts regs names e s = Inr t"
    by (auto split: sum.splits)
  show ?case
  proof (cases "numberSeconds opts < of_nat (msElapsed e) / 1000")
    case True
    with Cons.prems t have "s' = t" "env = e" by simp_all
    with t True have "iterations opts regs names (take (Suc 0) (e # envs)) s = Inr s' \<and> env = (e # envs) ! 0
      \<and> numberSeconds opts < of_nat (msElapsed env) / 1000"
      by simp
    then show ?thesis by blast
  next
    case False
    with Cons.prems t have "loop opts regs names envs t = Some (Inr (s', env))" by simp
    from Cons.IH [OF this] obtain n where n: "n < length envs"
      "iterations opts regs names (take (Suc n) envs) t = Inr s'" "env = envs ! n"
      "numberSeconds opts < of_nat (msElapsed env) / 1000"
      by blast
    with t have "Suc n < length (e # envs) \<and> iterations opts regs names (take (Suc (Suc n)) (e # envs)) s = Inr s'
       \<and> env = (e # envs) ! Suc n \<and> numberSeconds opts < of_nat (msElapsed env) / 1000"
      by simp
    then show ?thesis by blast
  qed
qed

lemma requestNumber_initialState [simp]: "requestNumber (initialState g) = 0"
  "resolvedResults (initialState g) = 0" "microtasks (initialState g) = []"
  "resolveCacheHits (initialState g) = 0" "unresolvedPromises (initialState g) = []"
  by (simp_all add: initialState_def)

lemma runTest_InrE:
  assumes "runTest opts envs g = Some (Inr (r, g'))"
  obtains s n where
    "n < length envs"
    "iterations opts (fst (generateAwilixConfig (numberServices opts) (lifetimeType opts)))
       (snd (generateAwilixConfig (numberServices opts) (lifetimeType opts)))
       (take (Suc n) envs) (initialState g) = Inr s"
    "r = report s (envs ! n)" "g' = globals (store s)" "requestNumber s = Suc n"
    "numberSeconds opts < of_nat (msElapsed (envs ! n)) / 1000"
proof -
  obtain regs names where c: "generateAwilixConfig (numberServices opts) (lifetimeType opts) = (regs, names)"
    by (cases "generateAwilixConfig (numberServices opts) (lifetimeType opts)")
  with assms obtain s env where l: "loop opts regs names envs (initialState g) = Some (Inr (s, env))"
    and r: "r = report s env" "g' = globals (store s)"
    by (auto simp: runTest_def split: option.splits sum.splits)
  from loop_iterations [OF l] obtain n where n: "n < length envs"
    "iterations opts regs names (take (Suc n) envs) (initialState g) = Inr s" "env = envs ! n"
    "numberSeconds opts < of_nat (msElapsed env) / 1000"
    by blast
  from iterations_requestNumber [OF n(2)] n(1) have "requestNumber s = Suc n"
    by simp
  with n r c that show thesis
    by simp
qed

subsection \<open>The test matrix and the loop over it\<close>

lemma flat_Arr: "flat (Suc d) (map Arr xss) = concat (map (flat d) xss)"
  by (induction xss) simp_all

lemma flat_map_Arr: "flat (Suc d) (map (\<lambda>x. Arr (f x)) xs) = concat (map (\<lambda>x. flat d (f x)) xs)"
  using flat_Arr [of d "map f xs"] by (simp add: comp_def)

lemma flat_map_Obj: "flat d (map (\<lambda>x. Obj (f x)) xs) = map Obj (map f xs)"
  by (induction xs) simp_all

lemma concat_map_map_Obj:
  "concat (map (\<lambda>x. map Obj (f x)) xs) = map Obj (concat (map f xs))"
  by (induction xs) simp_all

lemma map_product_left:
  "map f (List.product xs ys) = concat (map (\<lambda>x. map (\<lambda>y. f (x, y)) ys) xs)"
  by (induction xs) simp_all

lemma testCasesOf_product:
  "testCasesOf tm secs =
     map Obj (map (mkTestCase secs)
       (List.product (numberServices_axis tm)
         (List.product (maxInFlight_axis tm)
           (List.product (lifetimeType_axis tm) (cacheBypass_axis tm)))))"
proof -
  have inner: "map (\<lambda>y. mkTestCase secs (ns, mif, y)) (List.product ls cs)
      = concat (map (\<lambda>lt. map (\<lambda>cb. mkTestCase secs (ns, mif, lt, cb)) cs) ls)"
    for ns mif ls cs
    by (rule map_product_left)
  have mid: "map (\<lambda>y. mkTestCase secs (ns, y)) (List.product ms (List.product ls cs))
      = concat (map (\<lambda>mif. concat (map (\<lambda>lt. map (\<lambda>cb. mkTestCase secs (ns, mif, lt, cb)) cs) ls)) ms)"
    for ns ms ls cs
    by (simp add: map_product_left [of _ ms] inner)
  have outer: "map (mkTestCase secs) (List.product ns (List.product ms (List.product ls cs)))
      = concat (map (\<lambda>n. concat (map (\<lambda>mif. concat (map (\<lambda>lt.
           map (\<lambda>cb. mkTestCase secs (n, mif, lt, cb)) cs) ls)) ms)) ns)"
    for ns ms ls cs
    by (simp add: map_product_left [of _ ns] mid)
  have four: "(4::nat) = Suc (Suc (Suc (Suc 0)))"
    by simp
  have "testCasesOf tm secs =
      map Obj (concat (map (\<lambda>n. concat (map (\<lambda>mif. concat (map (\<lambda>lt.
           map (\<lambda>cb. \<lparr> numberServices = n, maxInFlight = mif, lifetimeType = lt,
                        cacheBypass = cb, numberSeconds = secs \<rparr>) (cacheBypass_axis tm))
           (lifetimeType_axis tm))) (maxInFlight_axis tm))) (numberServices_axis tm)))"
    unfolding testCasesOf_def four
    by (simp only: flat_map_Arr flat_map_Obj concat_map_map_Obj)
  also have "\<dots> = map Obj (map (mkTestCase secs)
       (List.product (numberServices_axis tm)
         (List.product (maxInFlight_axis tm)
           (List.product (lifetimeType_axis tm) (cacheBypass_axis tm)))))"
    unfolding outer by (simp add: mkTestCase_def)
  finally show ?thesis .
qed

text \<open>The matrix of the script repeats no value on any axis and has 24 combinations.\<close>

lemma testMatrix_axes_distinct:
  "distinct (numberServices_axis testMatrix) \<and> distinct (maxInFlight_axis testMatrix) \<and>
   distinct (lifetimeType_axis testMatrix) \<and> distinct (cacheBypass_axis testMatrix)"
  by (simp add: testMatrix_def)

lemma testCases_length: "length testCases = 24"
  by (simp add: testCases_def testCasesOf_product testMatrix_def)

lemma runAll_Obj:
  "runAll (map Obj cs) envss g acc = Some (Inr results) \<Longrightarrow> map fst results = map fst acc @ cs"
proof (induction cs arbitrary: envss g acc)
  case Nil
  then show ?case by simp
next
  case (Cons c cs)
  show ?case
  proof (cases envss)
    case Nil
    with Cons.prems show ?thesis by simp
  next
    case (Cons envs rest)
    with Cons.prems obtain r g' where "runTest c envs g = Some (Inr (r, g'))"
      and "runAll (map Obj cs) rest g' (acc @ [(c, r)]) = Some (Inr results)"
      by (auto split: option.splits sum.splits)
    from Cons.IH [OF this(2)] show ?thesis by simp
  qed
qed

lemma inj_mkTestCase: "inj (mkTestCase secs)"
  by (auto simp: inj_on_def mkTestCase_def)

subsection \<open>Resolution inside an iteration\<close>

lemma doLog_frame:
  "doLog l g = Some g' \<Longrightarrow>
   totalDiInitializations g' = totalDiInitializations g \<and>
   mockLoggerIdCounter g' = mockLoggerIdCounter g \<and>
   numberLogs g' = numberLogs g + 1"
  by (cases l) auto

lemma mockAction_frame:
  "mockAction v x g = Some (p, g') \<Longrightarrow>
   totalDiInitializations g' = totalDiInitializations g \<and>
   mockLoggerIdCounter g' = mockLoggerIdCounter g"
proof (induction v x g arbitrary: p g' rule: mockAction.induct)
  case (1 i x g)
  then show ?case by simp
next
  case (2 l x g)
  show ?case
  proof (cases "doLog l g")
    case None
    with "2.prems" show ?thesis by simp
  next
    case (Some g1)
    with "2.prems" have "g' = g1" by simp
    with doLog_frame [OF Some] show ?thesis by simp
  qed
next
  case (3 l r x g)
  show ?case
  proof (cases "doLog l g")
    case None
    with "3.prems" show ?thesis by simp
  next
    case (Some g1)
    note g1 = doLog_frame [OF Some]
    show ?thesis
    proof (cases "mockAction r x g1")
      case None
      with Some "3.prems" have "g' = g1" by simp
      with g1 show ?thesis by simp
    next
      case inner: (Some a)
      obtain q g2 where a: "a = (q, g2)"
        by (cases a)
      obtain d ok where q: "q = SettlesAfter d ok"
        by (cases q)
      from inner a have "mockAction r x g1 = Some (q, g2)"
        by simp
      from "3.IH" [OF Some this] have g2: "totalDiInitializations g2 = totalDiInitializations g1"
        "mockLoggerIdCounter g2 = mockLoggerIdCounter g1"
        by simp_all
      from "3.prems" Some inner a q have "g' = g2"
        by simp
      with g1 g2 show ?thesis by simp
    qed
  qed
qed

lemma iteration_store:
  assumes "iteration opts regs names env s = Inr s'"
  obtains randomService h p g where
    "resolveService (cacheBypass opts) regs
       (if randomServiceIndex env < length names then Some (names ! randomServiceIndex env) else None)
       (resolveCacheHits s)
       (if lifetimeType opts = SCOPED then createScope (store s) else (store s)\<lparr>scopeCache := None\<rparr>)
     = Inr (randomService, resolveCacheHits s', h)"
    "mockAction randomService (Suc (requestNumber s)) (globals h) = Some (p, g)"
    "store s' = h\<lparr>globals := g\<rparr>"
  using assms
  by (rule iteration_InrE) (simp add: forceResolution_frame recordPromise_frame)

lemma cache_get_createScope [simp]: "cache_get (createScope h) name = None"
  by (simp add: cache_get_def createScope_def targetCache_def split: option.splits)

lemma resolveService_hits:
  "resolveService bypass regs name hits h = Inr (v, hits', h') \<Longrightarrow>
   hits' = (if bypass \<and> cache_get h name \<noteq> None then hits + 1 else hits)"
  by (auto simp: resolveService_def split: if_splits option.splits sum.splits)

lemma iteration_scoped_hits:
  assumes "iteration opts regs names env s = Inr s'" and "lifetimeType opts = SCOPED"
  shows "resolveCacheHits s' = resolveCacheHits s"
  using assms(1)
proof (rule iteration_store)
  fix randomService h p g
  assume "resolveService (cacheBypass opts) regs
       (if randomServiceIndex env < length names then Some (names ! randomServiceIndex env) else None)
       (resolveCacheHits s)
       (if lifetimeType opts = SCOPED then createScope (store s) else (store s)\<lparr>scopeCache := None\<rparr>)
     = Inr (randomService, resolveCacheHits s', h)"
  from resolveService_hits [OF this] assms(2) show ?thesis
    by simp
qed

lemma iterations_scoped_hits:
  "iterations opts regs names envs s = Inr s' \<Longrightarrow> lifetimeType opts = SCOPED \<Longrightarrow>
   resolveCacheHits s' = resolveCacheHits s"
proof (induction envs arbitrary: s)
  case Nil
  then show ?case by simp
next
  case (Cons env envs)
  from Cons.prems(1) obtain t where t: "iteration opts regs names env s = Inr t"
    and rest: "iterations opts regs names envs t = Inr s'"
    by (auto split: sum.splits)
  from Cons.IH [OF rest Cons.prems(2)] iteration_scoped_hits [OF t Cons.prems(2)]
  show ?case by simp
qed

lemma initialState_reset:
  "initialState (g\<lparr>totalDiInitializations := a, numberLogs := b\<rparr>) = initialState g"
  by (simp add: initialState_def)

lemma runTest_reset:
  "runTest opts envs (g\<lparr>totalDiInitializations := a, numberLogs := b\<rparr>) = runTest opts envs g"
  by (simp add: runTest_def initialState_reset)

lemma runAll_reset:
  "runAll cs envss (g\<lparr>totalDiInitializations := a, numberLogs := b\<rparr>) acc = runAll cs envss g acc"
proof (cases cs)
  case Nil
  then show ?thesis by simp
next
  case (Cons c rest)
  show ?thesis
  proof (cases envss)
    case Nil
    with Cons show ?thesis by simp
  next
    case envss: (Cons envs more)
    show ?thesis
      by (cases c) (simp_all add: Cons envss runTest_reset)
  qed
qed

subsection \<open>The generated names are pairwise different\<close>

lemma digit_char_inj: "a < 10 \<Longrightarrow> b < 10 \<Longrightarrow> digit_char a = digit_char b \<Longrightarrow> a = b"
  by (simp add: digit_char_def char_of_eq_iff take_bit_eq_mod)

lemma string_of_nat_nonempty: "string_of_nat n \<noteq> []"
  by (subst string_of_nat.simps) simp

lemma string_of_nat_inj: "string_of_nat n = string_of_nat m \<Longrightarrow> n = m"
proof (induction n arbitrary: m rule: string_of_nat.induct)
  case (1 n)
  show ?case
  proof (cases "n < 10")
    case small_n: True
    show ?thesis
    proof (cases "m < 10")
      case True
      with small_n "1.prems" have "digit_char n = digit_char m"
        by (simp add: string_of_nat.simps [of n] string_of_nat.simps [of m])
      with small_n True show ?thesis
        by (rule digit_char_inj)
    next
      case False
      with small_n "1.prems" have "[digit_char n] = string_of_nat (m div 10) @ [digit_char (m mod 10)]"
        by (simp add: string_of_nat.simps [of n] string_of_nat.simps [of m])
      then have "string_of_nat (m div 10) = []"
        by simp
      with string_of_nat_nonempty show ?thesis
        by blast
    qed
  next
    case big_n: False
    show ?thesis
    proof (cases "m < 10")
      case True
      with big_n "1.prems" have "string_of_nat (n div 10) @ [digit_char (n mod 10)] = [digit_char m]"
        by (simp add: string_of_nat.simps [of n] string_of_nat.simps [of m])
      then have "string_of_nat (n div 10) = []"
        by simp
      with string_of_nat_nonempty show ?thesis
        by blast
    next
      case False
      with big_n "1.prems" have eq: "string_of_nat (n div 10) @ [digit_char (n mod 10)] =
          string_of_nat (m div 10) @ [digit_char (m mod 10)]"
        by (simp add: string_of_nat.simps [of n] string_of_nat.simps [of m])
      then have "string_of_nat (n div 10) = string_of_nat (m div 10)"
        and d: "digit_char (n mod 10) = digit_char (m mod 10)"
        by simp_all
      with "1.IH" [OF big_n] have q: "n div 10 = m div 10"
        by blast
      have "n mod 10 = m mod 10"
        by (rule digit_char_inj [OF _ _ d]) simp_all
      with q show ?thesis
        by (metis div_mult_mod_eq)
    qed
  qed
qed

lemma mockServiceName_inj [simp]: "mockServiceName i = mockServiceName j \<longleftrightarrow> i = j"
  by (auto simp: mockServiceName_def dest: string_of_nat_inj)

lemma mockRepositoryName_inj [simp]: "mockRepositoryName i = mockRepositoryName j \<longleftrightarrow> i = j"
  by (auto simp: mockRepositoryName_def dest: string_of_nat_inj)

lemma names_distinct [simp]:
  "mockServiceName i \<noteq> mockRepositoryName j" "mockRepositoryName j \<noteq> mockServiceName i"
  "mockServiceName i \<noteq> ''logger''" "''logger'' \<noteq> mockServiceName i"
  "mockRepositoryName j \<noteq> ''logger''" "''logger'' \<noteq> mockRepositoryName j"
  by (simp_all add: mockServiceName_def mockRepositoryName_def)

subsection \<open>The generated registrations\<close>

lemma update_fresh: "k \<notin> fst ` set al \<Longrightarrow> AList.update k v al = al @ [(k, v)]"
  by (induction al) auto

lemma spread_fresh:
  "distinct (map fst src) \<Longrightarrow> fst ` set src \<inter> fst ` set target = {} \<Longrightarrow>
   spread src target = target @ src"
proof (induction src arbitrary: target)
  case Nil
  then show ?case by (simp add: spread_def)
next
  case (Cons e src)
  obtain k v where e: "e = (k, v)" by (cases e)
  from Cons.prems e have fresh: "k \<notin> fst ` set target"
    by auto
  from Cons.prems e have "distinct (map fst src)"
    and "fst ` set src \<inter> fst ` set (target @ [(k, v)]) = {}"
    by auto
  from Cons.IH [OF this] have "spread src (target @ [(k, v)]) = (target @ [(k, v)]) @ src" .
  with fresh e show ?case
    by (simp add: spread_def update_fresh)
qed

lemma fold_registerMocks:
  "fold (registerMocks lifetime) [0..<n] ([], []) =
     (map (repositoryEntry lifetime) [0..<n], map (serviceEntry lifetime) [0..<n])"
proof (induction n)
  case 0
  show ?case by simp
next
  case (Suc n)
  have "mockRepositoryName n \<notin> fst ` set (map (repositoryEntry lifetime) [0..<n])"
    and "mockServiceName n \<notin> fst ` set (map (serviceEntry lifetime) [0..<n])"
    by (auto simp: repositoryEntry_def serviceEntry_def)
  with Suc show ?case
    by (simp add: registerMocks_def update_fresh repositoryEntry_def serviceEntry_def)
qed

lemma generateAwilixConfig_eq:
  "generateAwilixConfig n lifetime =
     (map (repositoryEntry lifetime) [0..<n] @ map (serviceEntry lifetime) [0..<n] @
        [(''logger'', lifetime, loggerFn)],
      map mockServiceName [0..<n])"
proof -
  have keys_r: "map fst (map (repositoryEntry lifetime) [0..<n]) = map mockRepositoryName [0..<n]"
    and keys_s: "map fst (map (serviceEntry lifetime) [0..<n]) = map mockServiceName [0..<n]"
    by (simp_all add: repositoryEntry_def serviceEntry_def comp_def)
  have dr: "distinct (map fst (map (repositoryEntry lifetime) [0..<n]))"
    and ds: "distinct (map fst (map (serviceEntry lifetime) [0..<n]))"
    unfolding keys_r keys_s by (simp_all add: distinct_map inj_on_def)
  have r: "spread (map (repositoryEntry lifetime) [0..<n]) [] = map (repositoryEntry lifetime) [0..<n]"
    using spread_fresh [OF dr, of "[]"] by simp
  have "fst ` set (map (serviceEntry lifetime) [0..<n]) \<inter>
        fst ` set (map (repositoryEntry lifetime) [0..<n]) = {}"
    by (auto simp: repositoryEntry_def serviceEntry_def)
  from spread_fresh [OF ds this]
  have s: "spread (map (serviceEntry lifetime) [0..<n]) (map (repositoryEntry lifetime) [0..<n]) =
           map (repositoryEntry lifetime) [0..<n] @ map (serviceEntry lifetime) [0..<n]" .
  have "''logger'' \<notin> fst ` set (map (repositoryEntry lifetime) [0..<n] @ map (serviceEntry lifetime) [0..<n])"
    by (auto simp: repositoryEntry_def serviceEntry_def)
  then have "AList.update ''logger'' (lifetime, loggerFn)
               (map (repositoryEntry lifetime) [0..<n] @ map (serviceEntry lifetime) [0..<n]) =
             map (repositoryEntry lifetime) [0..<n] @ map (serviceEntry lifetime) [0..<n] @
               [(''logger'', lifetime, loggerFn)]"
    by (simp add: update_fresh)
  then show ?thesis
    by (simp add: generateAwilixConfig_def fold_registerMocks r s keys_s [simplified])
qed

lemma map_of_repositoryEntries:
  "map_of (map (repositoryEntry lifetime) [0..<n]) name =
     (if name \<in> mockRepositoryName ` {0..<n} then Some (lifetime, mockRepositoryFn) else None)"
  by (induction n) (auto simp: repositoryEntry_def map_add_def map_of_eq_None_iff split: option.splits)

lemma map_of_serviceEntries:
  "map_of (map (serviceEntry lifetime) [0..<n]) (mockServiceName i) =
     (if i < n then Some (lifetime, mockServiceFn (mockRepositoryName i)) else None)"
  by (induction n) (auto simp: serviceEntry_def map_add_def map_of_eq_None_iff less_Suc_eq split: option.splits)

lemma map_of_serviceEntries_other:
  "name \<notin> range mockServiceName \<Longrightarrow> map_of (map (serviceEntry lifetime) [0..<n]) name = None"
  by (auto simp: map_of_eq_None_iff serviceEntry_def)

lemma registrations_lookup:
  assumes "generateAwilixConfig n lifetime = (regs, names)"
  shows "map_of regs ''logger'' = Some (lifetime, loggerFn)"
    and "i < n \<Longrightarrow> map_of regs (mockRepositoryName i) = Some (lifetime, mockRepositoryFn)"
    and "i < n \<Longrightarrow> map_of regs (mockServiceName i) = Some (lifetime, mockServiceFn (mockRepositoryName i))"
    and "names = map mockServiceName [0..<n]"
proof -
  from assms have regs: "regs = map (repositoryEntry lifetime) [0..<n] @ map (serviceEntry lifetime) [0..<n] @
        [(''logger'', lifetime, loggerFn)]"
    and names: "names = map mockServiceName [0..<n]"
    by (simp_all add: generateAwilixConfig_eq)
  show "names = map mockServiceName [0..<n]" by (rule names)
  have nr: "''logger'' \<notin> mockRepositoryName ` {0..<n}" by auto
  have ns: "''logger'' \<notin> range mockServiceName" by auto
  show "map_of regs ''logger'' = Some (lifetime, loggerFn)"
    unfolding regs
    by (simp add: map_add_def map_of_repositoryEntries nr map_of_serviceEntries_other [OF ns])
  show "map_of regs (mockRepositoryName i) = Some (lifetime, mockRepositoryFn)" if "i < n"
    unfolding regs using that
    by (simp add: map_add_def map_of_repositoryEntries)
  have "mockServiceName i \<notin> mockRepositoryName ` {0..<n}" by auto
  then show "map_of regs (mockServiceName i) = Some (lifetime, mockServiceFn (mockRepositoryName i))"
    if "i < n"
    unfolding regs using that
    by (simp add: map_add_def map_of_repositoryEntries map_of_serviceEntries)
qed

subsection \<open>The map of promises only grows\<close>

lemma iteration_keys_inv:
  assumes "iteration opts regs names env s = Inr s'"
    and "map fst (unresolvedPromises s) = [1..<Suc (requestNumber s)]"
  shows "map fst (unresolvedPromises s') = [1..<Suc (requestNumber s')]"
proof -
  from assms(2) have "Suc (requestNumber s) \<notin> fst ` set (unresolvedPromises s)"
    by (metis Suc_n_not_le_n atLeastLessThan_iff less_Suc_eq_le list.set_map set_upt)
  then have "AList.update (Suc (requestNumber s)) Pending (unresolvedPromises s) =
             unresolvedPromises s @ [(Suc (requestNumber s), Pending)]"
    by (rule update_fresh)
  with iteration_keys [OF assms(1)] iteration_requestNumber [OF assms(1)] assms(2)
  show ?thesis
    by simp
qed

lemma iterations_keys:
  "iterations opts regs names envs s = Inr s' \<Longrightarrow>
   map fst (unresolvedPromises s) = [1..<Suc (requestNumber s)] \<Longrightarrow>
   map fst (unresolvedPromises s') = [1..<Suc (requestNumber s')]"
proof (induction envs arbitrary: s)
  case Nil
  then show ?case by simp
next
  case (Cons env envs)
  from Cons.prems(1) obtain t where t: "iteration opts regs names env s = Inr t"
    and rest: "iterations opts regs names envs t = Inr s'"
    by (auto split: sum.splits)
  from Cons.IH [OF rest iteration_keys_inv [OF t Cons.prems(2)]] show ?case .
qed

lemma in_flight_size:
  assumes "iterations opts regs names envs (initialState g) = Inr s"
  shows "length (unresolvedPromises s) = length envs"
proof -
  from iterations_keys [OF assms] have "map fst (unresolvedPromises s) = [1..<Suc (requestNumber s)]"
    by simp
  then have "length (map fst (unresolvedPromises s)) = requestNumber s"
    by simp
  with iterations_requestNumber [OF assms] show ?thesis
    by simp
qed

subsection \<open>Resolution with lifetime \<open>TRANSIENT\<close>\<close>

lemma incInitializations_simps [simp]:
  "totalDiInitializations (globals (incInitializations h)) = Suc (totalDiInitializations (globals h))"
  "mockLoggerIdCounter (globals (incInitializations h)) = mockLoggerIdCounter (globals h)"
  "numberLogs (globals (incInitializations h)) = numberLogs (globals h)"
  "rootCache (incInitializations h) = rootCache h"
  "scopeCache (incInitializations h) = scopeCache h"
  by (simp_all add: incInitializations_def)

lemma new_MockLogger_simps [simp]:
  "totalDiInitializations (globals (snd (new_MockLogger h))) = Suc (totalDiInitializations (globals h))"
  "numberLogs (globals (snd (new_MockLogger h))) = numberLogs (globals h)"
  "rootCache (snd (new_MockLogger h)) = rootCache h"
  "scopeCache (snd (new_MockLogger h)) = scopeCache h"
  by (simp_all add: new_MockLogger_def Let_def)

lemma initialState_store [simp]:
  "totalDiInitializations (globals (store (initialState g))) = 0"
  "numberLogs (globals (store (initialState g))) = 0"
  "rootCache (store (initialState g)) = []"
  "scopeCache (store (initialState g)) = None"
  by (simp_all add: initialState_def)

lemma iteration_pick:
  assumes "iteration opts regs names env s = Inr s'"
  shows "randomServiceIndex env < length names"
proof (rule ccontr)
  assume "\<not> randomServiceIndex env < length names"
  with assms show False
    by (auto simp: iteration_def Let_def resolveService_def cache_get_def container_resolve_def
        split: if_splits)
qed

lemma iterations_picks:
  "iterations opts regs names envs s = Inr s' \<Longrightarrow>
   \<forall>e \<in> set envs. randomServiceIndex e < length names"
proof (induction envs arbitrary: s)
  case Nil
  then show ?case by simp
next
  case (Cons env envs)
  from Cons.prems(1) obtain t where t: "iteration opts regs names env s = Inr t"
    and rest: "iterations opts regs names envs t = Inr s'"
    by (auto split: sum.splits)
  from Cons.IH [OF rest] iteration_pick [OF t] show ?case
    by simp
qed

lemma resolve_logger_transient:
  assumes "map_of regs ''logger'' = Some (TRANSIENT, loggerFn)" and "''logger'' \<notin> set stack"
  shows "resolve regs stack ''logger'' h = Inr (new_MockLogger h)"
  by (subst resolve.simps) (simp add: assms callFactory_def)

lemma resolve_repository_transient:
  assumes "map_of regs ''logger'' = Some (TRANSIENT, loggerFn)"
    and "map_of regs name = Some (TRANSIENT, mockRepositoryFn)"
    and "name \<notin> set stack" and "''logger'' \<notin> set stack" and "name \<noteq> ''logger''"
  shows "resolve regs stack name h =
           Inr (MockRepositoryLayer (fst (new_MockLogger (incInitializations h))),
                snd (new_MockLogger (incInitializations h)))"
proof -
  have "resolve regs (name # stack) ''logger'' (incInitializations h) =
          Inr (new_MockLogger (incInitializations h))"
    using assms by (intro resolve_logger_transient) auto
  then have "resolve regs (name # stack) ''logger'' (incInitializations h) =
          Inr (fst (new_MockLogger (incInitializations h)), snd (new_MockLogger (incInitializations h)))"
    by simp
  then show ?thesis
    by (subst resolve.simps)
       (simp add: assms callFactory_def new_MockRepositoryLayer_def case_prod_beta)
qed

lemma resolve_service_transient:
  assumes "map_of regs ''logger'' = Some (TRANSIENT, loggerFn)"
    and "map_of regs name = Some (TRANSIENT, mockServiceFn rname)"
    and "map_of regs rname = Some (TRANSIENT, mockRepositoryFn)"
    and "name \<noteq> ''logger''" and "rname \<noteq> ''logger''" and "rname \<noteq> name"
  shows "\<exists>v h'. resolve regs [] name h = Inr (v, h') \<and>
           totalDiInitializations (globals h') = totalDiInitializations (globals h) + 4 \<and>
           numberLogs (globals h') = numberLogs (globals h) \<and>
           rootCache h' = rootCache h \<and> scopeCache h' = scopeCache h"
proof -
  let ?h1 = "incInitializations h"
  let ?h2 = "snd (new_MockLogger ?h1)"
  have "resolve regs [name] ''logger'' ?h1 = Inr (new_MockLogger ?h1)"
    using assms by (intro resolve_logger_transient) auto
  then have l: "resolve regs [name] ''logger'' ?h1 = Inr (fst (new_MockLogger ?h1), ?h2)"
    by simp
  have r: "resolve regs [name] rname ?h2 =
           Inr (MockRepositoryLayer (fst (new_MockLogger (incInitializations ?h2))),
                snd (new_MockLogger (incInitializations ?h2)))"
    using assms by (intro resolve_repository_transient) auto
  have "resolve regs [] name h =
          Inr (MockServiceLayer (fst (new_MockLogger ?h1))
                 (MockRepositoryLayer (fst (new_MockLogger (incInitializations ?h2)))),
               snd (new_MockLogger (incInitializations ?h2)))"
    by (subst resolve.simps)
       (simp add: assms callFactory_def new_MockServiceLayer_def l r case_prod_beta)
  then show ?thesis
    by simp
qed

lemma iteration_transient:
  assumes cfg: "generateAwilixConfig n TRANSIENT = (regs, names)"
    and it: "iteration opts regs names env s = Inr s'"
    and lt: "lifetimeType opts = TRANSIENT"
    and empty: "rootCache (store s) = []"
  shows "totalDiInitializations (globals (store s')) = totalDiInitializations (globals (store s)) + 4 \<and>
         rootCache (store s') = []"
proof -
  let ?i = "randomServiceIndex env"
  let ?target = "(store s)\<lparr>scopeCache := None\<rparr>"
  note look = registrations_lookup [OF cfg]
  from iteration_pick [OF it] look(4) have i: "?i < n" and name: "names ! ?i = mockServiceName ?i"
    by simp_all
  from it obtain randomService h p g where
    rs: "resolveService (cacheBypass opts) regs
       (if ?i < length names then Some (names ! ?i) else None)
       (resolveCacheHits s)
       (if lifetimeType opts = SCOPED then createScope (store s) else ?target)
     = Inr (randomService, resolveCacheHits s', h)"
    and act: "mockAction randomService (Suc (requestNumber s)) (globals h) = Some (p, g)"
    and st: "store s' = h\<lparr>globals := g\<rparr>"
    by (rule iteration_store)
  from resolve_service_transient [OF look(1) look(3) [OF i] look(2) [OF i], of ?target]
  obtain v h' where res: "resolve regs [] (mockServiceName ?i) ?target = Inr (v, h')"
    and eff: "totalDiInitializations (globals h') = totalDiInitializations (globals (store s)) + 4"
      "rootCache h' = rootCache (store s)"
    by auto
  have miss: "cache_get ?target (Some (mockServiceName ?i)) = None"
    by (simp add: cache_get_def targetCache_def empty)
  from rs i look(4) name lt res miss have "h = h'"
    by (simp add: resolveService_def container_resolve_def split: if_splits)
  with eff st mockAction_frame [OF act] empty show ?thesis
    by simp
qed

lemma iterations_transient:
  assumes cfg: "generateAwilixConfig n TRANSIENT = (regs, names)"
    and lt: "lifetimeType opts = TRANSIENT"
  shows "iterations opts regs names envs s = Inr s' \<Longrightarrow> rootCache (store s) = [] \<Longrightarrow>
    totalDiInitializations (globals (store s')) =
      totalDiInitializations (globals (store s)) + 4 * length envs \<and>
    rootCache (store s') = []"
proof (induction envs arbitrary: s)
  case Nil
  then show ?case by simp
next
  case (Cons env envs)
  from Cons.prems(1) obtain t where t: "iteration opts regs names env s = Inr t"
    and rest: "iterations opts regs names envs t = Inr s'"
    by (auto split: sum.splits)
  from iteration_transient [OF cfg t lt Cons.prems(2)]
  have t_eff: "totalDiInitializations (globals (store t)) = totalDiInitializations (globals (store s)) + 4"
    "rootCache (store t) = []"
    by simp_all
  from Cons.IH [OF rest t_eff(2)] t_eff(1) show ?case
    by simp
qed

subsection \<open>Resolution with lifetime \<open>SINGLETON\<close>\<close>

lemma cachedKeys_frame [simp]:
  "cachedKeys (incInitializations h) = cachedKeys h"
  "cachedKeys (snd (new_MockLogger h)) = cachedKeys h"
  "cachedKeys (h\<lparr>rootCache := AList.update k v (rootCache h)\<rparr>) = insert k (cachedKeys h)"
  "cachedKeys (h\<lparr>scopeCache := c\<rparr>) = cachedKeys h"
  "cachedKeys (h\<lparr>globals := g\<rparr>) = cachedKeys h"
  by (simp_all add: cachedKeys_def dom_update)

lemma cached_iff: "map_of (rootCache h) k = None \<longleftrightarrow> k \<notin> cachedKeys h"
  by (simp add: cachedKeys_def map_of_eq_None_iff)

lemma resolve_cached_singleton:
  assumes "map_of regs name = Some (SINGLETON, f)" and "map_of (rootCache h) name = Some v"
    and "name \<notin> set stack"
  shows "resolve regs stack name h = Inr (v, h)"
  by (subst resolve.simps) (simp add: assms)

lemma resolve_logger_singleton:
  assumes "map_of regs ''logger'' = Some (SINGLETON, loggerFn)" and "''logger'' \<notin> set stack"
  shows "\<exists>v h'. resolve regs stack ''logger'' h = Inr (v, h') \<and>
           cachedKeys h' = insert ''logger'' (cachedKeys h) \<and>
           totalDiInitializations (globals h') =
             totalDiInitializations (globals h) + (if ''logger'' \<in> cachedKeys h then 0 else 1) \<and>
           numberLogs (globals h') = numberLogs (globals h) \<and>
           scopeCache h' = scopeCache h"
proof (cases "map_of (rootCache h) ''logger''")
  case None
  then have "resolve regs stack ''logger'' h =
      Inr (fst (new_MockLogger h),
           (snd (new_MockLogger h))\<lparr>rootCache :=
              AList.update ''logger'' (fst (new_MockLogger h)) (rootCache (snd (new_MockLogger h)))\<rparr>)"
    by (subst resolve.simps) (simp add: assms callFactory_def case_prod_beta)
  moreover from None have "''logger'' \<notin> cachedKeys h"
    by (simp add: cached_iff)
  ultimately show ?thesis
    by (simp add: cachedKeys_def dom_update)
next
  case (Some v)
  then have "''logger'' \<in> cachedKeys h"
    using cached_iff [of h "''logger''"] by simp
  with resolve_cached_singleton [OF assms(1) Some assms(2)] show ?thesis
    by (simp add: insert_absorb)
qed

lemma resolve_repository_singleton:
  assumes "map_of regs ''logger'' = Some (SINGLETON, loggerFn)"
    and "map_of regs name = Some (SINGLETON, mockRepositoryFn)"
    and "name \<notin> set stack" and "''logger'' \<notin> set stack" and "name \<noteq> ''logger''"
    and "name \<notin> cachedKeys h"
  shows "\<exists>v h'. resolve regs stack name h = Inr (v, h') \<and>
           cachedKeys h' = insert name (insert ''logger'' (cachedKeys h)) \<and>
           totalDiInitializations (globals h') =
             totalDiInitializations (globals h) + 1 + (if ''logger'' \<in> cachedKeys h then 0 else 1) \<and>
           numberLogs (globals h') = numberLogs (globals h) \<and>
           scopeCache h' = scopeCache h"
proof -
  have "''logger'' \<notin> set (name # stack)"
    using assms by auto
  from resolve_logger_singleton [OF assms(1) this, of "incInitializations h"]
  obtain l h1 where l: "resolve regs (name # stack) ''logger'' (incInitializations h) = Inr (l, h1)"
    and h1: "cachedKeys h1 = insert ''logger'' (cachedKeys h)"
      "totalDiInitializations (globals h1) =
         Suc (totalDiInitializations (globals h)) + (if ''logger'' \<in> cachedKeys h then 0 else 1)"
      "numberLogs (globals h1) = numberLogs (globals h)"
      "scopeCache h1 = scopeCache h"
    by auto
  from assms(6) have "map_of (rootCache h) name = None"
    by (simp add: cached_iff)
  then have "resolve regs stack name h =
      Inr (MockRepositoryLayer l, h1\<lparr>rootCache := AList.update name (MockRepositoryLayer l) (rootCache h1)\<rparr>)"
    by (subst resolve.simps) (simp add: assms callFactory_def new_MockRepositoryLayer_def l)
  with h1 show ?thesis
    by simp
qed

lemma resolve_service_singleton:
  assumes "map_of regs ''logger'' = Some (SINGLETON, loggerFn)"
    and "map_of regs name = Some (SINGLETON, mockServiceFn rname)"
    and "map_of regs rname = Some (SINGLETON, mockRepositoryFn)"
    and "name \<noteq> ''logger''" and "rname \<noteq> ''logger''" and "rname \<noteq> name"
    and "name \<notin> cachedKeys h" and "rname \<notin> cachedKeys h"
  shows "\<exists>v h'. resolve regs [] name h = Inr (v, h') \<and>
           cachedKeys h' = insert name (insert rname (insert ''logger'' (cachedKeys h))) \<and>
           totalDiInitializations (globals h') =
             totalDiInitializations (globals h) + 2 + (if ''logger'' \<in> cachedKeys h then 0 else 1) \<and>
           numberLogs (globals h') = numberLogs (globals h) \<and>
           scopeCache h' = scopeCache h"
proof -
  have "''logger'' \<notin> set [name]"
    using assms by auto
  from resolve_logger_singleton [OF assms(1) this, of "incInitializations h"]
  obtain l h1 where l: "resolve regs [name] ''logger'' (incInitializations h) = Inr (l, h1)"
    and h1: "cachedKeys h1 = insert ''logger'' (cachedKeys h)"
      "totalDiInitializations (globals h1) =
         Suc (totalDiInitializations (globals h)) + (if ''logger'' \<in> cachedKeys h then 0 else 1)"
      "numberLogs (globals h1) = numberLogs (globals h)"
      "scopeCache h1 = scopeCache h"
    by auto
  have "rname \<notin> set [name]" "''logger'' \<notin> set [name]" "rname \<notin> cachedKeys h1"
    using assms h1 by auto
  from resolve_repository_singleton [OF assms(1) assms(3) this(1) this(2) assms(5) this(3)]
  obtain r h2 where r: "resolve regs [name] rname h1 = Inr (r, h2)"
    and h2: "cachedKeys h2 = insert rname (insert ''logger'' (cachedKeys h))"
      "totalDiInitializations (globals h2) =
         Suc (Suc (totalDiInitializations (globals h))) + (if ''logger'' \<in> cachedKeys h then 0 else 1)"
      "numberLogs (globals h2) = numberLogs (globals h)"
      "scopeCache h2 = scopeCache h"
    using h1 by auto
  from assms(7) have "map_of (rootCache h) name = None"
    by (simp add: cached_iff)
  then have "resolve regs [] name h =
      Inr (MockServiceLayer l r, h2\<lparr>rootCache := AList.update name (MockServiceLayer l r) (rootCache h2)\<rparr>)"
    by (subst resolve.simps) (simp add: assms callFactory_def new_MockServiceLayer_def l r)
  with h2 show ?thesis
    by simp
qed

lemma singletonKeys_mem [simp]:
  "mockServiceName i \<in> singletonKeys P \<longleftrightarrow> i \<in> P"
  "mockRepositoryName i \<in> singletonKeys P \<longleftrightarrow> i \<in> P"
  "''logger'' \<in> singletonKeys P \<longleftrightarrow> P \<noteq> {}"
  by (auto simp: singletonKeys_def)

lemma singletonKeys_insert:
  "singletonKeys (insert i P) =
     insert (mockServiceName i) (insert (mockRepositoryName i) (insert ''logger'' (singletonKeys P)))"
  by (auto simp: singletonKeys_def)

lemma iteration_singleton:
  assumes cfg: "generateAwilixConfig n SINGLETON = (regs, names)"
    and it: "iteration opts regs names env s = Inr s'"
    and lt: "lifetimeType opts = SINGLETON"
    and inv: "singletonInv P (store s)" and fin: "finite P"
  shows "singletonInv (insert (randomServiceIndex env) P) (store s')"
proof -
  let ?i = "randomServiceIndex env"
  let ?name = "mockServiceName ?i"
  let ?target = "(store s)\<lparr>scopeCache := None\<rparr>"
  note look = registrations_lookup [OF cfg]
  from iteration_pick [OF it] look(4) have i: "?i < n" and name: "names ! ?i = ?name"
    by simp_all
  from it obtain randomService h p g where
    rs: "resolveService (cacheBypass opts) regs
       (if ?i < length names then Some (names ! ?i) else None)
       (resolveCacheHits s)
       (if lifetimeType opts = SCOPED then createScope (store s) else ?target)
     = Inr (randomService, resolveCacheHits s', h)"
    and act: "mockAction randomService (Suc (requestNumber s)) (globals h) = Some (p, g)"
    and st: "store s' = h\<lparr>globals := g\<rparr>"
    by (rule iteration_store)
  from rs i look(4) name lt have rs': "resolveService (cacheBypass opts) regs (Some ?name)
       (resolveCacheHits s) ?target = Inr (randomService, resolveCacheHits s', h)"
    by simp
  from inv have keys: "cachedKeys (store s) = singletonKeys P"
    and count: "totalDiInitializations (globals (store s)) = (if P = {} then 0 else 2 * card P + 1)"
    by (simp_all add: singletonInv_def)
  have get: "cache_get ?target (Some ?name) = map_of (rootCache ?target) ?name"
    by (simp add: cache_get_def targetCache_def)
  have h_inv: "singletonInv (insert ?i P) h"
  proof (cases "?i \<in> P")
    case True
    then have "?name \<in> cachedKeys ?target"
      using keys by simp
    then obtain v where v: "map_of (rootCache ?target) ?name = Some v"
      using cached_iff [of ?target ?name] by auto
    have "resolve regs [] ?name ?target = Inr (v, ?target)"
      by (rule resolve_cached_singleton [OF look(3) [OF i] v]) simp
    then have "resolveService (cacheBypass opts) regs (Some ?name) (resolveCacheHits s) ?target =
            Inr (v, if cacheBypass opts then resolveCacheHits s + 1 else resolveCacheHits s, ?target)"
      using v get by (simp add: resolveService_def container_resolve_def)
    with rs' have "h = ?target"
      by simp
    with keys count True show ?thesis
      by (simp add: singletonInv_def insert_absorb)
  next
    case False
    then have fresh: "?name \<notin> cachedKeys ?target" "mockRepositoryName ?i \<notin> cachedKeys ?target"
      using keys by simp_all
    from resolve_service_singleton
      [OF look(1) look(3) [OF i] look(2) [OF i] names_distinct(3) names_distinct(5)
          names_distinct(2) fresh]
    obtain v h' where res: "resolve regs [] ?name ?target = Inr (v, h')"
      and keys': "cachedKeys h' =
          insert ?name (insert (mockRepositoryName ?i) (insert ''logger'' (cachedKeys ?target)))"
      and count': "totalDiInitializations (globals h') =
          totalDiInitializations (globals ?target) + 2 +
            (if ''logger'' \<in> cachedKeys ?target then 0 else 1)"
      by blast
    from fresh(1) have none: "map_of (rootCache ?target) ?name = None"
      by (simp add: cached_iff)
    have "resolveService (cacheBypass opts) regs (Some ?name) (resolveCacheHits s) ?target =
            Inr (v, resolveCacheHits s, h')"
      using none res get by (simp add: resolveService_def container_resolve_def)
    with rs' have hh: "h = h'"
      by simp
    have keys_h': "cachedKeys h' = singletonKeys (insert ?i P)"
      using keys' keys by (simp add: singletonKeys_insert)
    have count_h': "totalDiInitializations (globals h') = 2 * card (insert ?i P) + 1"
    proof (cases "P = {}")
      case True
      with count' count keys show ?thesis by simp
    next
      case nonempty: False
      with count' count keys have "totalDiInitializations (globals h') = 2 * card P + 3"
        by simp
      with False fin show ?thesis by simp
    qed
    from hh keys_h' count_h' show ?thesis
      by (simp add: singletonInv_def)
  qed
  with st mockAction_frame [OF act] show ?thesis
    by (simp add: singletonInv_def)
qed

lemma iterations_singleton:
  assumes cfg: "generateAwilixConfig n SINGLETON = (regs, names)"
    and lt: "lifetimeType opts = SINGLETON"
  shows "iterations opts regs names envs s = Inr s' \<Longrightarrow> singletonInv P (store s) \<Longrightarrow> finite P \<Longrightarrow>
    singletonInv (P \<union> randomServiceIndex ` set envs) (store s')"
proof (induction envs arbitrary: s P)
  case Nil
  then show ?case by simp
next
  case (Cons env envs)
  from Cons.prems(1) obtain t where t: "iteration opts regs names env s = Inr t"
    and rest: "iterations opts regs names envs t = Inr s'"
    by (auto split: sum.splits)
  from iteration_singleton [OF cfg t lt Cons.prems(2) Cons.prems(3)]
  have "singletonInv (insert (randomServiceIndex env) P) (store t)" .
  from Cons.IH [OF rest this] Cons.prems(3) show ?case
    by simp
qed

subsection \<open>Every run returns\<close>

lemma mockAction_service: "isService v \<Longrightarrow> \<exists>p g'. mockAction v x g = Some (p, g')"
proof (cases v)
  case (MockServiceLayer l r)
  show ?thesis
  proof (cases "doLog l g")
    case None
    with MockServiceLayer show ?thesis by simp
  next
    case (Some g1)
    show ?thesis
    proof (cases "mockAction r x g1")
      case None
      with Some MockServiceLayer show ?thesis by simp
    next
      case inner: (Some a)
      obtain q g2 where "a = (q, g2)" by (cases a)
      moreover obtain d ok where "q = SettlesAfter d ok" by (cases q)
      ultimately show ?thesis
        using Some inner MockServiceLayer by simp
    qed
  qed
qed simp_all

lemma resolve_logger_ok:
  assumes "map_of regs ''logger'' = Some (lifetime, loggerFn)" and "''logger'' \<notin> set stack"
  shows "\<exists>v h'. resolve regs stack ''logger'' h = Inr (v, h')"
  by (subst resolve.simps)
     (simp add: assms callFactory_def case_prod_beta split: Lifetime.splits option.splits)

lemma resolve_repository_ok:
  assumes "map_of regs ''logger'' = Some (lifetime, loggerFn)"
    and "map_of regs name = Some (lifetime, mockRepositoryFn)"
    and "name \<notin> set stack" and "''logger'' \<notin> set stack" and "name \<noteq> ''logger''"
  shows "\<exists>v h'. resolve regs stack name h = Inr (v, h')"
proof -
  have "''logger'' \<notin> set (name # stack)"
    using assms by auto
  from resolve_logger_ok [OF assms(1) this, of "incInitializations h"]
  obtain l h1 where "resolve regs (name # stack) ''logger'' (incInitializations h) = Inr (l, h1)"
    by blast
  then show ?thesis
    by (subst resolve.simps)
       (simp add: assms callFactory_def new_MockRepositoryLayer_def
          split: Lifetime.splits option.splits)
qed

lemma resolve_service_ok:
  assumes "map_of regs ''logger'' = Some (lifetime, loggerFn)"
    and "map_of regs name = Some (lifetime, mockServiceFn rname)"
    and "map_of regs rname = Some (lifetime, mockRepositoryFn)"
    and "name \<noteq> ''logger''" and "rname \<noteq> ''logger''" and "rname \<noteq> name"
    and "lifetime = SINGLETON \<Longrightarrow> map_of (rootCache h) name = None"
    and "lifetime = SCOPED \<Longrightarrow> map_of (targetCache h) name = None"
  shows "\<exists>v h'. resolve regs [] name h = Inr (v, h') \<and> isService v"
proof -
  have "''logger'' \<notin> set [name]"
    using assms by auto
  from resolve_logger_ok [OF assms(1) this, of "incInitializations h"]
  obtain l h1 where l: "resolve regs [name] ''logger'' (incInitializations h) = Inr (l, h1)"
    by blast
  have "rname \<notin> set [name]" "''logger'' \<notin> set [name]"
    using assms by auto
  from resolve_repository_ok [OF assms(1) assms(3) this assms(5), of h1]
  obtain r h2 where r: "resolve regs [name] rname h1 = Inr (r, h2)"
    by blast
  show ?thesis
  proof (cases lifetime)
    case TRANSIENT
    then show ?thesis
      by (subst resolve.simps) (simp add: assms callFactory_def new_MockServiceLayer_def l r)
  next
    case SCOPED
    with assms(8) show ?thesis
      by (subst resolve.simps) (simp add: assms(1-6) callFactory_def new_MockServiceLayer_def l r)
  next
    case SINGLETON
    with assms(7) show ?thesis
      by (subst resolve.simps) (simp add: assms(1-6) callFactory_def new_MockServiceLayer_def l r)
  qed
qed

lemma resolve_logger_singleton_frame:
  assumes "map_of regs ''logger'' = Some (SINGLETON, loggerFn)" and "''logger'' \<notin> set stack"
  shows "\<exists>v h'. resolve regs stack ''logger'' h = Inr (v, h') \<and>
           (\<forall>k. k \<noteq> ''logger'' \<longrightarrow> map_of (rootCache h') k = map_of (rootCache h) k)"
proof (cases "map_of (rootCache h) ''logger''")
  case None
  then have "resolve regs stack ''logger'' h =
      Inr (fst (new_MockLogger h),
           (snd (new_MockLogger h))\<lparr>rootCache :=
              AList.update ''logger'' (fst (new_MockLogger h)) (rootCache (snd (new_MockLogger h)))\<rparr>)"
    by (subst resolve.simps) (simp add: assms callFactory_def case_prod_beta)
  then show ?thesis
    by (simp add: update_conv')
next
  case (Some v)
  from resolve_cached_singleton [OF assms(1) Some assms(2)] show ?thesis
    by simp
qed

lemma resolve_repository_singleton_frame:
  assumes "map_of regs ''logger'' = Some (SINGLETON, loggerFn)"
    and "map_of regs name = Some (SINGLETON, mockRepositoryFn)"
    and "name \<notin> set stack" and "''logger'' \<notin> set stack" and "name \<noteq> ''logger''"
  shows "\<exists>v h'. resolve regs stack name h = Inr (v, h') \<and>
           (\<forall>k. k \<noteq> ''logger'' \<and> k \<noteq> name \<longrightarrow> map_of (rootCache h') k = map_of (rootCache h) k)"
proof (cases "map_of (rootCache h) name")
  case None
  have "''logger'' \<notin> set (name # stack)"
    using assms by auto
  from resolve_logger_singleton_frame [OF assms(1) this, of "incInitializations h"]
  obtain l h1 where l: "resolve regs (name # stack) ''logger'' (incInitializations h) = Inr (l, h1)"
    and h1: "\<forall>k. k \<noteq> ''logger'' \<longrightarrow> map_of (rootCache h1) k = map_of (rootCache h) k"
    by auto
  from None have "resolve regs stack name h =
      Inr (MockRepositoryLayer l, h1\<lparr>rootCache := AList.update name (MockRepositoryLayer l) (rootCache h1)\<rparr>)"
    by (subst resolve.simps) (simp add: assms callFactory_def new_MockRepositoryLayer_def l)
  with h1 show ?thesis
    by (simp add: update_conv')
next
  case (Some v)
  from resolve_cached_singleton [OF assms(2) Some assms(3)] show ?thesis
    by simp
qed

lemma resolve_service_singleton_frame:
  assumes "map_of regs ''logger'' = Some (SINGLETON, loggerFn)"
    and "map_of regs name = Some (SINGLETON, mockServiceFn rname)"
    and "map_of regs rname = Some (SINGLETON, mockRepositoryFn)"
    and "name \<noteq> ''logger''" and "rname \<noteq> ''logger''" and "rname \<noteq> name"
    and "map_of (rootCache h) name = None"
  shows "\<exists>v h'. resolve regs [] name h = Inr (v, h') \<and> isService v \<and>
           map_of (rootCache h') name = Some v \<and>
           (\<forall>k. k \<noteq> ''logger'' \<and> k \<noteq> rname \<and> k \<noteq> name \<longrightarrow>
                 map_of (rootCache h') k = map_of (rootCache h) k)"
proof -
  have "''logger'' \<notin> set [name]"
    using assms by auto
  from resolve_logger_singleton_frame [OF assms(1) this, of "incInitializations h"]
  obtain l h1 where l: "resolve regs [name] ''logger'' (incInitializations h) = Inr (l, h1)"
    and h1: "\<forall>k. k \<noteq> ''logger'' \<longrightarrow> map_of (rootCache h1) k = map_of (rootCache h) k"
    by auto
  have "rname \<notin> set [name]" "''logger'' \<notin> set [name]"
    using assms by auto
  from resolve_repository_singleton_frame [OF assms(1) assms(3) this assms(5), of h1]
  obtain r h2 where r: "resolve regs [name] rname h1 = Inr (r, h2)"
    and h2: "\<forall>k. k \<noteq> ''logger'' \<and> k \<noteq> rname \<longrightarrow> map_of (rootCache h2) k = map_of (rootCache h1) k"
    by auto
  from assms(7) have "resolve regs [] name h =
      Inr (MockServiceLayer l r, h2\<lparr>rootCache := AList.update name (MockServiceLayer l r) (rootCache h2)\<rparr>)"
    by (subst resolve.simps) (simp add: assms(1-6) callFactory_def new_MockServiceLayer_def l r)
  with h1 h2 show ?thesis
    by (simp add: update_conv')
qed

lemma resolveService_ok:
  assumes cfg: "generateAwilixConfig n lifetime = (regs, names)"
    and i: "i < n"
    and target: "lifetime = SCOPED \<Longrightarrow> scopeCache h = Some []"
      "lifetime \<noteq> SCOPED \<Longrightarrow> scopeCache h = None"
    and inv: "runInv lifetime h"
  shows "\<exists>v hits' h'. resolveService bypass regs (Some (mockServiceName i)) hits h = Inr (v, hits', h') \<and>
           isService v \<and> runInv lifetime h'"
proof -
  let ?name = "mockServiceName i"
  note look = registrations_lookup [OF cfg]
  note regs = look(1) look(3) [OF i] look(2) [OF i] names_distinct(3) names_distinct(5)
    names_distinct(2)
  have step: "\<exists>v hits' h'. resolveService bypass regs (Some ?name) hits h = Inr (v, hits', h') \<and>
           isService v \<and> runInv lifetime h'"
    if miss: "cache_get h (Some ?name) = None"
      and res: "resolve regs [] ?name h = Inr (v, h')" and v: "isService v" and h': "runInv lifetime h'"
    for v h'
    using that by (auto simp: resolveService_def container_resolve_def)
  show ?thesis
  proof (cases lifetime)
    case TRANSIENT
    with inv target have empty: "rootCache h = []" "scopeCache h = None"
      by (simp_all add: runInv_def)
    then have miss: "cache_get h (Some ?name) = None"
      by (simp add: cache_get_def targetCache_def)
    from resolve_service_ok [OF regs, of h] TRANSIENT
    obtain v h' where res: "resolve regs [] ?name h = Inr (v, h')" and v: "isService v"
      by auto
    from resolve_service_transient [OF regs [unfolded TRANSIENT], of h] res empty
    have "rootCache h' = []"
      by auto
    with TRANSIENT have "runInv lifetime h'"
      by (simp add: runInv_def)
    from step [OF miss res v this] show ?thesis .
  next
    case SCOPED
    with target have empty: "targetCache h = []"
      by (simp add: targetCache_def)
    then have miss: "cache_get h (Some ?name) = None"
      by (simp add: cache_get_def)
    from resolve_service_ok [OF regs, of h] SCOPED empty
    obtain v h' where res: "resolve regs [] ?name h = Inr (v, h')" and v: "isService v"
      by auto
    from SCOPED have "runInv lifetime h'"
      by (simp add: runInv_def)
    from step [OF miss res v this] show ?thesis .
  next
    case SINGLETON
    with inv target have cached: "servicesCached h" and root: "targetCache h = rootCache h"
      by (simp_all add: runInv_def targetCache_def)
    show ?thesis
    proof (cases "map_of (rootCache h) ?name")
      case None
      with root have miss: "cache_get h (Some ?name) = None"
        by (simp add: cache_get_def)
      from resolve_service_singleton_frame [OF regs [unfolded SINGLETON] None]
      obtain v h' where res: "resolve regs [] ?name h = Inr (v, h')" and v: "isService v"
        and new: "map_of (rootCache h') ?name = Some v"
        and old: "\<forall>k. k \<noteq> ''logger'' \<and> k \<noteq> mockRepositoryName i \<and> k \<noteq> ?name \<longrightarrow>
                 map_of (rootCache h') k = map_of (rootCache h) k"
        by blast
      have "servicesCached h'"
        unfolding servicesCached_def
      proof (intro allI impI)
        fix j w
        assume w: "map_of (rootCache h') (mockServiceName j) = Some w"
        show "isService w"
        proof (cases "j = i")
          case True
          with w new v show ?thesis by simp
        next
          case False
          with old have "map_of (rootCache h') (mockServiceName j) = map_of (rootCache h) (mockServiceName j)"
            by simp
          with w cached show ?thesis
            by (simp add: servicesCached_def)
        qed
      qed
      with SINGLETON have "runInv lifetime h'"
        by (simp add: runInv_def)
      from step [OF miss res v this] show ?thesis .
    next
      case (Some w)
      with cached have w: "isService w"
        by (auto simp: servicesCached_def)
      from Some root have hit: "cache_get h (Some ?name) = Some w"
        by (simp add: cache_get_def)
      have "resolve regs [] ?name h = Inr (w, h)"
        by (rule resolve_cached_singleton [OF regs(2) [unfolded SINGLETON] Some]) simp
      with hit have "resolveService bypass regs (Some ?name) hits h =
          Inr (w, if bypass then hits + 1 else hits, h)"
        by (simp add: resolveService_def container_resolve_def)
      with w inv show ?thesis
        by blast
    qed
  qed
qed

lemma runInv_frame [simp]:
  "runInv lifetime (h\<lparr>globals := g\<rparr>) = runInv lifetime h"
  "runInv lifetime (h\<lparr>scopeCache := c\<rparr>) = runInv lifetime h"
  "runInv lifetime (createScope h) = runInv lifetime h"
  by (simp_all add: runInv_def servicesCached_def createScope_def)

lemma iteration_ok:
  assumes cfg: "generateAwilixConfig n (lifetimeType opts) = (regs, names)"
    and i: "randomServiceIndex env < n"
    and inv: "runInv (lifetimeType opts) (store s)"
  shows "\<exists>s'. iteration opts regs names env s = Inr s' \<and> runInv (lifetimeType opts) (store s')"
proof -
  let ?i = "randomServiceIndex env"
  let ?target = "if lifetimeType opts = SCOPED then createScope (store s)
                 else (store s)\<lparr>scopeCache := None\<rparr>"
  from registrations_lookup(4) [OF cfg] i
  have pick: "(if ?i < length names then Some (names ! ?i) else None) = Some (mockServiceName ?i)"
    by simp
  have "runInv (lifetimeType opts) ?target"
    using inv by (cases "lifetimeType opts = SCOPED") simp_all
  moreover have "lifetimeType opts = SCOPED \<Longrightarrow> scopeCache ?target = Some []"
    and "lifetimeType opts \<noteq> SCOPED \<Longrightarrow> scopeCache ?target = None"
    by (simp_all add: createScope_def)
  ultimately obtain v hits' h' where
    rs: "resolveService (cacheBypass opts) regs (Some (mockServiceName ?i)) (resolveCacheHits s) ?target
           = Inr (v, hits', h')"
    and v: "isService v" and h': "runInv (lifetimeType opts) h'"
    using resolveService_ok [OF cfg i, of ?target "cacheBypass opts" "resolveCacheHits s"]
    by blast
  from mockAction_service [OF v] obtain p g where
    act: "mockAction v (Suc (requestNumber s)) (globals h') = Some (p, g)"
    by blast
  have "\<exists>s'. iteration opts regs names env s = Inr s'"
  proof (cases "lifetimeType opts = SCOPED")
    case True
    with rs have "resolveService (cacheBypass opts) regs (Some (mockServiceName ?i))
        (resolveCacheHits s) (createScope (store s)) = Inr (v, hits', h')"
      by simp
    with act pick True show ?thesis
      by (simp add: iteration_def Let_def)
  next
    case False
    with rs have "resolveService (cacheBypass opts) regs (Some (mockServiceName ?i))
        (resolveCacheHits s) ((store s)\<lparr>scopeCache := None\<rparr>) = Inr (v, hits', h')"
      by simp
    with act pick False show ?thesis
      by (simp add: iteration_def Let_def)
  qed
  then obtain s' where s': "iteration opts regs names env s = Inr s'"
    by blast
  then obtain v2 h2 p2 g2 where
    "resolveService (cacheBypass opts) regs
       (if ?i < length names then Some (names ! ?i) else None) (resolveCacheHits s) ?target
     = Inr (v2, resolveCacheHits s', h2)"
    "mockAction v2 (Suc (requestNumber s)) (globals h2) = Some (p2, g2)"
    "store s' = h2\<lparr>globals := g2\<rparr>"
    by (rule iteration_store)
  with rs pick have "store s' = h'\<lparr>globals := g2\<rparr>"
    by simp
  with h' s' show ?thesis
    by simp
qed

lemma loop_ok:
  assumes cfg: "generateAwilixConfig n (lifetimeType opts) = (regs, names)"
  shows "\<forall>e \<in> set envs. randomServiceIndex e < n \<Longrightarrow>
    \<exists>e \<in> set envs. numberSeconds opts < of_nat (msElapsed e) / 1000 \<Longrightarrow>
    runInv (lifetimeType opts) (store s) \<Longrightarrow>
    \<exists>s' e. loop opts regs names envs s = Some (Inr (s', e))"
proof (induction envs arbitrary: s)
  case Nil
  then show ?case by simp
next
  case (Cons env envs)
  from Cons.prems(1) have "randomServiceIndex env < n"
    by simp
  from iteration_ok [OF cfg this Cons.prems(3)] obtain t where
    t: "iteration opts regs names env s = Inr t" and inv: "runInv (lifetimeType opts) (store t)"
    by blast
  show ?case
  proof (cases "numberSeconds opts < of_nat (msElapsed env) / 1000")
    case True
    with t show ?thesis by simp
  next
    case False
    with Cons.prems(2) have later: "\<exists>e \<in> set envs. numberSeconds opts < of_nat (msElapsed e) / 1000"
      by auto
    from Cons.prems(1) have "\<forall>e \<in> set envs. randomServiceIndex e < n"
      by simp
    from Cons.IH [OF this later inv] t False show ?thesis
      by simp
  qed
qed

lemma runTest_returns:
  assumes "adequate opts envs"
  shows "\<exists>r g'. runTest opts envs g = Some (Inr (r, g'))"
proof -
  obtain regs names where
    cfg: "generateAwilixConfig (numberServices opts) (lifetimeType opts) = (regs, names)"
    by (cases "generateAwilixConfig (numberServices opts) (lifetimeType opts)")
  have "runInv (lifetimeType opts) (store (initialState g))"
    by (simp add: runInv_def servicesCached_def)
  with assms loop_ok [OF cfg, of envs "initialState g"]
  obtain s e where "loop opts regs names envs (initialState g) = Some (Inr (s, e))"
    by (auto simp: adequate_def)
  with cfg show ?thesis
    by (simp add: runTest_def)
qed

lemma runAll_returns:
  "list_all2 adequate cs envss \<Longrightarrow> \<exists>results. runAll (map Obj cs) envss g acc = Some (Inr results)"
proof (induction cs envss arbitrary: g acc rule: list_all2_induct)
  case Nil
  show ?case by simp
next
  case (Cons c cs envs envss)
  from runTest_returns [OF Cons.hyps(1)] obtain r g' where "runTest c envs g = Some (Inr (r, g'))"
    by blast
  with Cons.IH [of g' "acc @ [(c, r)]"] show ?case
    by simp
qed

lemma adequate_demo:
  "adequate (demo_case lifetime bypass) demo_envs"
  "adequate (demo_case lifetime bypass) demo_envs_same"
  "adequate (demo_case lifetime bypass) demo_envs_long"
  by (simp_all add: adequate_def demo_case_def demo_envs_def demo_envs_same_def demo_envs_long_def)

section \<open>The claims\<close>

text \<open>
  C1. At the check of lines 119-124, when the map has reached \<open>maxInFlight\<close> entries,
  the driver sets \<open>maxInFlightHit\<close>; but what it awaits is the iterator result object of
  line 122, not the promise inside it. In the sample run with \<open>maxInFlight = 1\<close> the
  first iteration ends, and the loop goes on, while the only promise of the map is still
  pending and no completion has been counted: its reaction is still queued.
\<close>

theorem backpressure_does_not_wait:
  "iteration (demo_case TRANSIENT True)
     (fst (generateAwilixConfig 2 TRANSIENT)) (snd (generateAwilixConfig 2 TRANSIENT))
     (hd demo_envs) (initialState demo_globals) =
     Inr \<lparr> store = \<lparr> globals = \<lparr> totalDiInitializations = 4, mockLoggerIdCounter = 3,
                                   numberLogs = 2 \<rparr>,
                       rootCache = [], scopeCache = None \<rparr>,
           unresolvedPromises = [(1, Pending)],
           resolvedResults = 0, resolveCacheHits = 0, maxInFlightHit = True,
           requestNumber = 1, msSpentResolving = 1,
           microtasks = [ThenReaction 1 True] \<rparr> \<and>
   entries_next [(1, Pending)] = IteratorResult (Some (1, Pending)) False \<and>
   await_value (IteratorResult (Some (1, Pending)) False) = await_value (IteratorResult None True)"
proof -
  have "iteration (demo_case TRANSIENT True)
     (fst (generateAwilixConfig 2 TRANSIENT)) (snd (generateAwilixConfig 2 TRANSIENT))
     (hd demo_envs) (initialState demo_globals) =
     Inr \<lparr> store = \<lparr> globals = \<lparr> totalDiInitializations = 4, mockLoggerIdCounter = 3,
                                   numberLogs = 2 \<rparr>,
                       rootCache = [], scopeCache = None \<rparr>,
           unresolvedPromises = [(1, Pending)],
           resolvedResults = 0, resolveCacheHits = 0, maxInFlightHit = True,
           requestNumber = 1, msSpentResolving = 1,
           microtasks = [ThenReaction 1 True] \<rparr>"
    by (simp add: eval_defs)
  moreover have "await_value (IteratorResult (Some (1, Pending)) False) = await_value (IteratorResult None True)"
    by (rule ext) (simp add: await_value_def)
  ultimately show ?thesis
    by (simp add: entries_next_def)
qed

text \<open>
  C2. When the action of a request completes, its reaction counts the completion, but
  the entry of the request stays in the map: line 114 reads a property of the function
  \<open>delete\<close> and calls nothing. After two iterations of the sample run the first request
  is complete and counted, and the map still holds its key.
\<close>

theorem completed_request_stays_in_map:
  "runJob (ThenReaction 1 True) \<lparr> store = \<lparr> globals = \<lparr> totalDiInitializations = 4, mockLoggerIdCounter = 3,
                                   numberLogs = 2 \<rparr>,
                       rootCache = [], scopeCache = None \<rparr>,
           unresolvedPromises = [(1, Pending)],
           resolvedResults = 0, resolveCacheHits = 0, maxInFlightHit = True,
           requestNumber = 1, msSpentResolving = 1,
           microtasks = [] \<rparr> =
     \<lparr> store = \<lparr> globals = \<lparr> totalDiInitializations = 4, mockLoggerIdCounter = 3,
                                   numberLogs = 2 \<rparr>,
                       rootCache = [], scopeCache = None \<rparr>,
           unresolvedPromises = [(1, Fulfilled)],
           resolvedResults = 1, resolveCacheHits = 0, maxInFlightHit = True,
           requestNumber = 1, msSpentResolving = 1,
           microtasks = [] \<rparr> \<and>
   iterations (demo_case TRANSIENT True)
     (fst (generateAwilixConfig 2 TRANSIENT)) (snd (generateAwilixConfig 2 TRANSIENT))
     (take 2 demo_envs) (initialState demo_globals) =
     Inr \<lparr> store = \<lparr> globals = \<lparr> totalDiInitializations = 8, mockLoggerIdCounter = 5,
                                   numberLogs = 4 \<rparr>,
                       rootCache = [], scopeCache = None \<rparr>,
           unresolvedPromises = [(1, Fulfilled), (2, Pending)],
           resolvedResults = 1, resolveCacheHits = 0, maxInFlightHit = True,
           requestNumber = 2, msSpentResolving = 2,
           microtasks = [ThenReaction 2 True] \<rparr>"
proof -
  have "iterations (demo_case TRANSIENT True)
     (fst (generateAwilixConfig 2 TRANSIENT)) (snd (generateAwilixConfig 2 TRANSIENT))
     (take 2 demo_envs) (initialState demo_globals) =
     Inr \<lparr> store = \<lparr> globals = \<lparr> totalDiInitializations = 8, mockLoggerIdCounter = 5,
                                   numberLogs = 4 \<rparr>,
                       rootCache = [], scopeCache = None \<rparr>,
           unresolvedPromises = [(1, Fulfilled), (2, Pending)],
           resolvedResults = 1, resolveCacheHits = 0, maxInFlightHit = True,
           requestNumber = 2, msSpentResolving = 2,
           microtasks = [ThenReaction 2 True] \<rparr>"
    by (simp add: eval_defs)
  then show ?thesis
    by (simp add: settle_def)
qed

text \<open>
  C3. The size of the map is not bounded by \<open>maxInFlight\<close> after the cap has been hit:
  no entry is ever removed, so the map holds one entry per request issued
  (\<open>in_flight_size\<close>). In the sample run with \<open>maxInFlight = 1\<close> the cap is hit in the
  first iteration, and the fourth iteration starts with three entries.
\<close>

theorem in_flight_set_exceeds_cap:
  "maxInFlight (demo_case TRANSIENT True) = 1 \<and>
   iterations (demo_case TRANSIENT True)
     (fst (generateAwilixConfig 2 TRANSIENT)) (snd (generateAwilixConfig 2 TRANSIENT))
     (take 1 demo_envs_long) (initialState demo_globals) =
     Inr \<lparr> store = \<lparr> globals = \<lparr> totalDiInitializations = 4, mockLoggerIdCounter = 3,
                                   numberLogs = 2 \<rparr>,
                       rootCache = [], scopeCache = None \<rparr>,
           unresolvedPromises = [(1, Pending)],
           resolvedResults = 0, resolveCacheHits = 0, maxInFlightHit = True,
           requestNumber = 1, msSpentResolving = 1,
           microtasks = [ThenReaction 1 True] \<rparr> \<and>
   iterations (demo_case TRANSIENT True)
     (fst (generateAwilixConfig 2 TRANSIENT)) (snd (generateAwilixConfig 2 TRANSIENT))
     (take 3 demo_envs_long) (initialState demo_globals) =
     Inr \<lparr> store = \<lparr> globals = \<lparr> totalDiInitializations = 12, mockLoggerIdCounter = 7,
                                   numberLogs = 6 \<rparr>,
                       rootCache = [], scopeCache = None \<rparr>,
           unresolvedPromises = [(1, Fulfilled), (2, Fulfilled), (3, Pending)],
           resolvedResults = 2, resolveCacheHits = 0, maxInFlightHit = True,
           requestNumber = 3, msSpentResolving = 3,
           microtasks = [ThenReaction 3 True] \<rparr> \<and>
   runTest (demo_case TRANSIENT True) demo_envs_long demo_globals =
     Some (Inr (\<lparr> r_maxInFlightHit = True, r_requestNumber = 4, r_resolveCacheHits = 0,
                    r_numberLogs = 8, r_resolvedResults = 3, r_totalSeconds = 1501 / 500,
                    r_totalSecondsResolving = 1 / 250, r_totalDiInitializations = 16 \<rparr>,
                \<lparr> totalDiInitializations = 16, mockLoggerIdCounter = 9, numberLogs = 8 \<rparr>))"
proof -
  have "iterations (demo_case TRANSIENT True)
     (fst (generateAwilixConfig 2 TRANSIENT)) (snd (generateAwilixConfig 2 TRANSIENT))
     (take 1 demo_envs_long) (initialState demo_globals) =
     Inr \<lparr> store = \<lparr> globals = \<lparr> totalDiInitializations = 4, mockLoggerIdCounter = 3,
                                   numberLogs = 2 \<rparr>,
                       rootCache = [], scopeCache = None \<rparr>,
           unresolvedPromises = [(1, Pending)],
           resolvedResults = 0, resolveCacheHits = 0, maxInFlightHit = True,
           requestNumber = 1, msSpentResolving = 1,
           microtasks = [ThenReaction 1 True] \<rparr>"
    by (simp add: eval_defs)
  moreover have "iterations (demo_case TRANSIENT True)
     (fst (generateAwilixConfig 2 TRANSIENT)) (snd (generateAwilixConfig 2 TRANSIENT))
     (take 3 demo_envs_long) (initialState demo_globals) =
     Inr \<lparr> store = \<lparr> globals = \<lparr> totalDiInitializations = 12, mockLoggerIdCounter = 7,
                                   numberLogs = 6 \<rparr>,
                       rootCache = [], scopeCache = None \<rparr>,
           unresolvedPromises = [(1, Fulfilled), (2, Fulfilled), (3, Pending)],
           resolvedResults = 2, resolveCacheHits = 0, maxInFlightHit = True,
           requestNumber = 3, msSpentResolving = 3,
           microtasks = [ThenReaction 3 True] \<rparr>"
    by (simp add: eval_defs)
  moreover have "runTest (demo_case TRANSIENT True) demo_envs_long demo_globals =
     Some (Inr (\<lparr> r_maxInFlightHit = True, r_requestNumber = 4, r_resolveCacheHits = 0,
                    r_numberLogs = 8, r_resolvedResults = 3, r_totalSeconds = 1501 / 500,
                    r_totalSecondsResolving = 1 / 250, r_totalDiInitializations = 16 \<rparr>,
                \<lparr> totalDiInitializations = 16, mockLoggerIdCounter = 9, numberLogs = 8 \<rparr>))"
    by (simp add: eval_defs)
  ultimately show ?thesis
    by (simp add: demo_case_def)
qed

text \<open>
  C4, as stated: with lifetime \<open>SINGLETON\<close> the construction counter at the end of a run
  is \<open>2 * numberServices + 1\<close>, however many requests were issued. It is not: a service
  is constructed when it is first resolved, and a run that never picks the second of two
  services constructs one service, one repository and the logger.
\<close>

theorem singleton_constructions_counterexample:
  "lifetimeType (demo_case SINGLETON True) = SINGLETON \<and>
   runTest (demo_case SINGLETON True) demo_envs_same demo_globals =
     Some (Inr (\<lparr> r_maxInFlightHit = True, r_requestNumber = 3, r_resolveCacheHits = 2,
                    r_numberLogs = 6, r_resolvedResults = 2, r_totalSeconds = 1501 / 500,
                    r_totalSecondsResolving = 3 / 1000, r_totalDiInitializations = 3 \<rparr>,
                \<lparr> totalDiInitializations = 3, mockLoggerIdCounter = 2, numberLogs = 6 \<rparr>)) \<and>
   r_totalDiInitializations \<lparr> r_maxInFlightHit = True, r_requestNumber = 3, r_resolveCacheHits = 2,
                    r_numberLogs = 6, r_resolvedResults = 2, r_totalSeconds = 1501 / 500,
                    r_totalSecondsResolving = 3 / 1000, r_totalDiInitializations = 3 \<rparr> \<noteq>
     2 * numberServices (demo_case SINGLETON True) + 1"
proof -
  have "runTest (demo_case SINGLETON True) demo_envs_same demo_globals =
     Some (Inr (\<lparr> r_maxInFlightHit = True, r_requestNumber = 3, r_resolveCacheHits = 2,
                    r_numberLogs = 6, r_resolvedResults = 2, r_totalSeconds = 1501 / 500,
                    r_totalSecondsResolving = 3 / 1000, r_totalDiInitializations = 3 \<rparr>,
                \<lparr> totalDiInitializations = 3, mockLoggerIdCounter = 2, numberLogs = 6 \<rparr>))"
    by (simp add: eval_defs)
  then show ?thesis
    by (simp add: demo_case_def)
qed

text \<open>
  C4, amended. With lifetime \<open>SINGLETON\<close> the construction counter at the end of a run
  is \<open>2 * k + 1\<close>, where \<open>k\<close> is the number of different services that the requests of
  the run picked: each of them and its repository is constructed once, and so is the
  logger. So the counter is at most \<open>2 * numberServices + 1\<close>, and it is equal to that
  exactly when every service was picked.
\<close>

theorem singleton_constructions:
  assumes lt: "lifetimeType opts = SINGLETON"
  shows "(adequate opts envs \<longrightarrow> (\<exists>r g'. runTest opts envs g = Some (Inr (r, g')))) \<and>
         (runTest opts envs g = Some (Inr (r, g')) \<longrightarrow>
            r_totalDiInitializations r =
              2 * card (randomServiceIndex ` set (take (r_requestNumber r) envs)) + 1 \<and>
            r_totalDiInitializations r \<le> 2 * numberServices opts + 1 \<and>
            (r_totalDiInitializations r = 2 * numberServices opts + 1 \<longleftrightarrow>
               randomServiceIndex ` set (take (r_requestNumber r) envs) = {0..<numberServices opts}))"
proof (intro conjI impI)
  assume "adequate opts envs"
  then show "\<exists>r g'. runTest opts envs g = Some (Inr (r, g'))"
    by (rule runTest_returns)
next
  assume run: "runTest opts envs g = Some (Inr (r, g'))"
  have "r_totalDiInitializations r =
           2 * card (randomServiceIndex ` set (take (r_requestNumber r) envs)) + 1 \<and>
         r_totalDiInitializations r \<le> 2 * numberServices opts + 1 \<and>
         (r_totalDiInitializations r = 2 * numberServices opts + 1 \<longleftrightarrow>
            randomServiceIndex ` set (take (r_requestNumber r) envs) = {0..<numberServices opts})"
  proof -
    let ?n = "numberServices opts"
    obtain regs names where cfg: "generateAwilixConfig ?n SINGLETON = (regs, names)"
      by (cases "generateAwilixConfig ?n SINGLETON")
    from run obtain s k where
      k: "k < length envs"
      and s: "iterations opts (fst (generateAwilixConfig ?n (lifetimeType opts)))
            (snd (generateAwilixConfig ?n (lifetimeType opts)))
            (take (Suc k) envs) (initialState g) = Inr s"
      and r: "r = report s (envs ! k)" and rn: "requestNumber s = Suc k"
      by (rule runTest_InrE)
    from s cfg lt have its: "iterations opts regs names (take (Suc k) envs) (initialState g) = Inr s"
      by simp
    let ?P = "randomServiceIndex ` set (take (Suc k) envs)"
    have "singletonInv {} (store (initialState g))"
      by (simp add: singletonInv_def singletonKeys_def cachedKeys_def)
    from iterations_singleton [OF cfg lt its this]
    have inv: "singletonInv ?P (store s)"
      by simp
    from k have "take (Suc k) envs \<noteq> []"
      by auto
    then have ne: "?P \<noteq> {}"
      by simp
    from inv ne have count: "totalDiInitializations (globals (store s)) = 2 * card ?P + 1"
      by (simp add: singletonInv_def)
    from iterations_picks [OF its] registrations_lookup(4) [OF cfg]
    have sub: "?P \<subseteq> {0..<?n}"
      by auto
    then have le: "card ?P \<le> ?n"
      using card_mono [of "{0..<?n}" ?P] by simp
    have full: "card ?P = ?n \<longleftrightarrow> ?P = {0..<?n}"
    proof
      assume "card ?P = ?n"
      with sub show "?P = {0..<?n}"
        by (intro card_subset_eq) simp_all
    next
      assume "?P = {0..<?n}"
      then show "card ?P = ?n"
        by simp
    qed
    have rr: "r_requestNumber r = Suc k" and rc: "r_totalDiInitializations r = 2 * card ?P + 1"
      by (simp_all add: r report_def rn count)
    have "2 * card ?P + 1 \<le> 2 * ?n + 1"
      using le by simp
    moreover have "2 * card ?P + 1 = 2 * ?n + 1 \<longleftrightarrow> ?P = {0..<?n}"
      using full by auto
    ultimately show ?thesis
      unfolding rr rc by blast
  qed
  then show "r_totalDiInitializations r =
           2 * card (randomServiceIndex ` set (take (r_requestNumber r) envs)) + 1"
    and "r_totalDiInitializations r \<le> 2 * numberServices opts + 1"
    and "r_totalDiInitializations r = 2 * numberServices opts + 1 \<longleftrightarrow>
            randomServiceIndex ` set (take (r_requestNumber r) envs) = {0..<numberServices opts}"
    by blast+
qed

theorem singleton_constructions_witness:
  "lifetimeType (demo_case SINGLETON True) = SINGLETON \<and>
   adequate (demo_case SINGLETON True) demo_envs \<and>
   runTest (demo_case SINGLETON True) demo_envs demo_globals =
     Some (Inr (\<lparr> r_maxInFlightHit = True, r_requestNumber = 3, r_resolveCacheHits = 1,
                    r_numberLogs = 6, r_resolvedResults = 2, r_totalSeconds = 1501 / 500,
                    r_totalSecondsResolving = 3 / 1000, r_totalDiInitializations = 5 \<rparr>,
                \<lparr> totalDiInitializations = 5, mockLoggerIdCounter = 2, numberLogs = 6 \<rparr>)) \<and>
   (5::nat) = 2 * card (randomServiceIndex ` set (take 3 demo_envs)) + 1 \<and>
   (5::nat) \<le> 2 * numberServices (demo_case SINGLETON True) + 1"
proof -
  have lt: "lifetimeType (demo_case SINGLETON True) = SINGLETON"
    by (simp add: demo_case_def)
  have run: "runTest (demo_case SINGLETON True) demo_envs demo_globals =
     Some (Inr (\<lparr> r_maxInFlightHit = True, r_requestNumber = 3, r_resolveCacheHits = 1,
                    r_numberLogs = 6, r_resolvedResults = 2, r_totalSeconds = 1501 / 500,
                    r_totalSecondsResolving = 3 / 1000, r_totalDiInitializations = 5 \<rparr>,
                \<lparr> totalDiInitializations = 5, mockLoggerIdCounter = 2, numberLogs = 6 \<rparr>))"
    by (simp add: eval_defs)
  from singleton_constructions [OF lt, THEN conjunct2, rule_format, OF run]
  have "(5::nat) = 2 * card (randomServiceIndex ` set (take 3 demo_envs)) + 1 \<and>
        (5::nat) \<le> 2 * numberServices (demo_case SINGLETON True) + 1"
    by simp
  with lt run adequate_demo(1) show ?thesis
    by blast
qed

text \<open>
  C5, as stated: with lifetime \<open>TRANSIENT\<close> the construction counter ends at no more than
  \<open>requestsIssued * (2 + 1)\<close>. It does not: the service and the repository each read the
  logger from the container, so each request constructs two loggers, four objects in all.
\<close>

theorem transient_constructions_counterexample:
  "lifetimeType (demo_case TRANSIENT True) = TRANSIENT \<and>
   runTest (demo_case TRANSIENT True) demo_envs demo_globals =
     Some (Inr (\<lparr> r_maxInFlightHit = True, r_requestNumber = 3, r_resolveCacheHits = 0,
                    r_numberLogs = 6, r_resolvedResults = 2, r_totalSeconds = 1501 / 500,
                    r_totalSecondsResolving = 3 / 1000, r_totalDiInitializations = 12 \<rparr>,
                \<lparr> totalDiInitializations = 12, mockLoggerIdCounter = 7, numberLogs = 6 \<rparr>)) \<and>
   \<not> r_totalDiInitializations \<lparr> r_maxInFlightHit = True, r_requestNumber = 3, r_resolveCacheHits = 0,
                    r_numberLogs = 6, r_resolvedResults = 2, r_totalSeconds = 1501 / 500,
                    r_totalSecondsResolving = 3 / 1000, r_totalDiInitializations = 12 \<rparr> \<le>
       r_requestNumber \<lparr> r_maxInFlightHit = True, r_requestNumber = 3, r_resolveCacheHits = 0,
                    r_numberLogs = 6, r_resolvedResults = 2, r_totalSeconds = 1501 / 500,
                    r_totalSecondsResolving = 3 / 1000, r_totalDiInitializations = 12 \<rparr> * (2 + 1)"
proof -
  have "runTest (demo_case TRANSIENT True) demo_envs demo_globals =
     Some (Inr (\<lparr> r_maxInFlightHit = True, r_requestNumber = 3, r_resolveCacheHits = 0,
                    r_numberLogs = 6, r_resolvedResults = 2, r_totalSeconds = 1501 / 500,
                    r_totalSecondsResolving = 3 / 1000, r_totalDiInitializations = 12 \<rparr>,
                \<lparr> totalDiInitializations = 12, mockLoggerIdCounter = 7, numberLogs = 6 \<rparr>))"
    by (simp add: eval_defs)
  then show ?thesis
    by (simp add: demo_case_def)
qed

text \<open>
  C5, amended. With lifetime \<open>TRANSIENT\<close> every request constructs a service, a
  repository and a logger for each of the two: after \<open>k\<close> requests the construction
  counter is \<open>4 * k\<close>, so it grows with each request, and the counter in the result is
  four times the number of requests issued.
\<close>

theorem transient_constructions:
  assumes "lifetimeType opts = TRANSIENT"
  shows "(adequate opts envs \<longrightarrow> (\<exists>r g'. runTest opts envs g = Some (Inr (r, g')))) \<and>
         (generateAwilixConfig (numberServices opts) TRANSIENT = (regs, names) \<and>
          iterations opts regs names (take k envs) (initialState g) = Inr s \<longrightarrow>
            totalDiInitializations (globals (store s)) = 4 * requestNumber s) \<and>
         (runTest opts envs g = Some (Inr (r, g')) \<longrightarrow>
            r_totalDiInitializations r = 4 * r_requestNumber r)"
proof (intro conjI impI)
  show "\<exists>r g'. runTest opts envs g = Some (Inr (r, g'))" if "adequate opts envs"
    using that by (rule runTest_returns)
  have *: "totalDiInitializations (globals (store t)) = 4 * requestNumber t"
    if "generateAwilixConfig (numberServices opts) TRANSIENT = (regs, names)"
      and "iterations opts regs names es (initialState g) = Inr t" for regs names es t
    using iterations_transient [OF that(1) assms that(2)] iterations_requestNumber [OF that(2)]
    by simp
  show "totalDiInitializations (globals (store s)) = 4 * requestNumber s"
    if "generateAwilixConfig (numberServices opts) TRANSIENT = (regs, names) \<and>
        iterations opts regs names (take k envs) (initialState g) = Inr s"
    using that * by blast
  show "r_totalDiInitializations r = 4 * r_requestNumber r"
    if "runTest opts envs g = Some (Inr (r, g'))"
  proof -
    from that obtain t n where
      t: "iterations opts (fst (generateAwilixConfig (numberServices opts) (lifetimeType opts)))
            (snd (generateAwilixConfig (numberServices opts) (lifetimeType opts)))
            (take (Suc n) envs) (initialState g) = Inr t"
      and r: "r = report t (envs ! n)"
      by (rule runTest_InrE)
    have "generateAwilixConfig (numberServices opts) TRANSIENT =
            (fst (generateAwilixConfig (numberServices opts) (lifetimeType opts)),
             snd (generateAwilixConfig (numberServices opts) (lifetimeType opts)))"
      by (simp add: assms)
    from * [OF this t] r show ?thesis
      by (simp add: report_def)
  qed
qed

theorem transient_constructions_witness:
  "lifetimeType (demo_case TRANSIENT True) = TRANSIENT \<and>
   adequate (demo_case TRANSIENT True) demo_envs \<and>
   iterations (demo_case TRANSIENT True)
     (fst (generateAwilixConfig 2 TRANSIENT)) (snd (generateAwilixConfig 2 TRANSIENT))
     (take 2 demo_envs) (initialState demo_globals) =
     Inr \<lparr> store = \<lparr> globals = \<lparr> totalDiInitializations = 8, mockLoggerIdCounter = 5,
                                   numberLogs = 4 \<rparr>,
                       rootCache = [], scopeCache = None \<rparr>,
           unresolvedPromises = [(1, Fulfilled), (2, Pending)],
           resolvedResults = 1, resolveCacheHits = 0, maxInFlightHit = True,
           requestNumber = 2, msSpentResolving = 2,
           microtasks = [ThenReaction 2 True] \<rparr> \<and>
   (8::nat) = 4 * 2 \<and>
   runTest (demo_case TRANSIENT True) demo_envs demo_globals =
     Some (Inr (\<lparr> r_maxInFlightHit = True, r_requestNumber = 3, r_resolveCacheHits = 0,
                    r_numberLogs = 6, r_resolvedResults = 2, r_totalSeconds = 1501 / 500,
                    r_totalSecondsResolving = 3 / 1000, r_totalDiInitializations = 12 \<rparr>,
                \<lparr> totalDiInitializations = 12, mockLoggerIdCounter = 7, numberLogs = 6 \<rparr>)) \<and>
   (12::nat) = 4 * 3"
proof -
  have lt: "lifetimeType (demo_case TRANSIENT True) = TRANSIENT"
    by (simp add: demo_case_def)
  have cfg: "generateAwilixConfig (numberServices (demo_case TRANSIENT True)) TRANSIENT =
             (fst (generateAwilixConfig 2 TRANSIENT), snd (generateAwilixConfig 2 TRANSIENT))"
    by (simp add: demo_case_def)
  have its: "iterations (demo_case TRANSIENT True)
     (fst (generateAwilixConfig 2 TRANSIENT)) (snd (generateAwilixConfig 2 TRANSIENT))
     (take 2 demo_envs) (initialState demo_globals) =
     Inr \<lparr> store = \<lparr> globals = \<lparr> totalDiInitializations = 8, mockLoggerIdCounter = 5,
                                   numberLogs = 4 \<rparr>,
                       rootCache = [], scopeCache = None \<rparr>,
           unresolvedPromises = [(1, Fulfilled), (2, Pending)],
           resolvedResults = 1, resolveCacheHits = 0, maxInFlightHit = True,
           requestNumber = 2, msSpentResolving = 2,
           microtasks = [ThenReaction 2 True] \<rparr>"
    by (simp add: eval_defs)
  have run: "runTest (demo_case TRANSIENT True) demo_envs demo_globals =
     Some (Inr (\<lparr> r_maxInFlightHit = True, r_requestNumber = 3, r_resolveCacheHits = 0,
                    r_numberLogs = 6, r_resolvedResults = 2, r_totalSeconds = 1501 / 500,
                    r_totalSecondsResolving = 3 / 1000, r_totalDiInitializations = 12 \<rparr>,
                \<lparr> totalDiInitializations = 12, mockLoggerIdCounter = 7, numberLogs = 6 \<rparr>))"
    by (simp add: eval_defs)
  from transient_constructions
    [OF lt, where regs = "fst (generateAwilixConfig 2 TRANSIENT)"
        and names = "snd (generateAwilixConfig 2 TRANSIENT)" and k = 2
        and envs = demo_envs and g = demo_globals]
    lt cfg its run adequate_demo(1) [of TRANSIENT True]
  show ?thesis
    by simp
qed

text \<open>
  C6. The matrix runner expands the matrix into the full cartesian product of its axes
  (service counts, max-in-flight values, lifetimes, cache-bypass flags), each with the one
  duration. Given adequate observations for each of these test cases, \<open>main\<close> returns a
  list that pairs, in this order, the elements of the product (\<open>List.product\<close>, the
  first axis varying slowest) with their results: its length is the product of the axis
  lengths, its test cases are exactly the combinations, and none occurs twice when no axis
  repeats a value, as is the case for the matrix of the script
  (\<open>testMatrix_axes_distinct\<close>).
\<close>

theorem matrix_expansion:
  assumes "list_all2 adequate
             (map (mkTestCase secs)
               (List.product (numberServices_axis tm)
                 (List.product (maxInFlight_axis tm)
                   (List.product (lifetimeType_axis tm) (cacheBypass_axis tm)))))
             envss"
  shows "\<exists>results.
           runMatrix tm secs envss g = Some (Inr results) \<and>
           map fst results =
             map (mkTestCase secs)
               (List.product (numberServices_axis tm)
                 (List.product (maxInFlight_axis tm)
                   (List.product (lifetimeType_axis tm) (cacheBypass_axis tm)))) \<and>
           length results =
             length (numberServices_axis tm) * length (maxInFlight_axis tm) *
             length (lifetimeType_axis tm) * length (cacheBypass_axis tm) \<and>
           set (map fst results) =
             mkTestCase secs ` (set (numberServices_axis tm) \<times> set (maxInFlight_axis tm) \<times>
                                set (lifetimeType_axis tm) \<times> set (cacheBypass_axis tm)) \<and>
           (distinct (numberServices_axis tm) \<and> distinct (maxInFlight_axis tm) \<and>
            distinct (lifetimeType_axis tm) \<and> distinct (cacheBypass_axis tm) \<longrightarrow>
              distinct (map fst results))"
proof -
  let ?P = "List.product (numberServices_axis tm)
               (List.product (maxInFlight_axis tm)
                 (List.product (lifetimeType_axis tm) (cacheBypass_axis tm)))"
  from runAll_returns [OF assms, of g "[]"] obtain results where
    run: "runAll (map Obj (map (mkTestCase secs) ?P)) envss g [] = Some (Inr results)"
    by blast
  then have ret: "runMatrix tm secs envss g = Some (Inr results)"
    by (simp add: runMatrix_def testCasesOf_product)
  from runAll_Obj [OF run] have eq: "map fst results = map (mkTestCase secs) ?P"
    by simp
  have len: "length results = length (map fst results)"
    by simp
  have "length results =
           length (numberServices_axis tm) * length (maxInFlight_axis tm) *
           length (lifetimeType_axis tm) * length (cacheBypass_axis tm)"
    unfolding len eq by (simp add: mult.assoc)
  moreover have "set (map fst results) =
           mkTestCase secs ` (set (numberServices_axis tm) \<times> set (maxInFlight_axis tm) \<times>
                              set (lifetimeType_axis tm) \<times> set (cacheBypass_axis tm))"
    unfolding eq by simp
  moreover have "distinct (map fst results)"
    if "distinct (numberServices_axis tm) \<and> distinct (maxInFlight_axis tm) \<and>
          distinct (lifetimeType_axis tm) \<and> distinct (cacheBypass_axis tm)"
    unfolding eq using that
    by (simp add: distinct_map distinct_product inj_on_subset [OF inj_mkTestCase])
  ultimately show ?thesis
    using ret eq by blast
qed

theorem matrix_expansion_witness:
  "list_all2 adequate
     (map (mkTestCase 3) (List.product [2] (List.product [1] (List.product [TRANSIENT, SINGLETON] [True]))))
     [demo_envs, demo_envs] \<and>
   runMatrix demo_matrix 3 [demo_envs, demo_envs] demo_globals =
     Some (Inr
       [(demo_case TRANSIENT True,
         \<lparr> r_maxInFlightHit = True, r_requestNumber = 3, r_resolveCacheHits = 0,
           r_numberLogs = 6, r_resolvedResults = 2, r_totalSeconds = 1501 / 500,
           r_totalSecondsResolving = 3 / 1000, r_totalDiInitializations = 12 \<rparr>),
        (demo_case SINGLETON True,
         \<lparr> r_maxInFlightHit = True, r_requestNumber = 3, r_resolveCacheHits = 1,
           r_numberLogs = 6, r_resolvedResults = 2, r_totalSeconds = 1501 / 500,
           r_totalSecondsResolving = 3 / 1000, r_totalDiInitializations = 5 \<rparr>)]) \<and>
   map fst
       [(demo_case TRANSIENT True,
         \<lparr> r_maxInFlightHit = True, r_requestNumber = 3, r_resolveCacheHits = 0,
           r_numberLogs = 6, r_resolvedResults = 2, r_totalSeconds = 1501 / 500,
           r_totalSecondsResolving = 3 / 1000, r_totalDiInitializations = 12 \<rparr>),
        (demo_case SINGLETON True,
         \<lparr> r_maxInFlightHit = True, r_requestNumber = 3, r_resolveCacheHits = 1,
           r_numberLogs = 6, r_resolvedResults = 2, r_totalSeconds = 1501 / 500,
           r_totalSecondsResolving = 3 / 1000, r_totalDiInitializations = 5 \<rparr>)] =
     map (mkTestCase 3) (List.product [2] (List.product [1] (List.product [TRANSIENT, SINGLETON] [True]))) \<and>
   distinct (map fst
       [(demo_case TRANSIENT True,
         \<lparr> r_maxInFlightHit = True, r_requestNumber = 3, r_resolveCacheHits = 0,
           r_numberLogs = 6, r_resolvedResults = 2, r_totalSeconds = 1501 / 500,
           r_totalSecondsResolving = 3 / 1000, r_totalDiInitializations = 12 \<rparr>),
        (demo_case SINGLETON True,
         \<lparr> r_maxInFlightHit = True, r_requestNumber = 3, r_resolveCacheHits = 1,
           r_numberLogs = 6, r_resolvedResults = 2, r_totalSeconds = 1501 / 500,
           r_totalSecondsResolving = 3 / 1000, r_totalDiInitializations = 5 \<rparr>)])"
proof -
  have tcs: "testCasesOf demo_matrix 3 = [Obj (demo_case TRANSIENT True), Obj (demo_case SINGLETON True)]"
    by (simp add: testCasesOf_product demo_matrix_def mkTestCase_def demo_case_def)
  have run1: "runTest (demo_case TRANSIENT True) demo_envs demo_globals =
     Some (Inr (\<lparr> r_maxInFlightHit = True, r_requestNumber = 3, r_resolveCacheHits = 0,
                    r_numberLogs = 6, r_resolvedResults = 2, r_totalSeconds = 1501 / 500,
                    r_totalSecondsResolving = 3 / 1000, r_totalDiInitializations = 12 \<rparr>,
                \<lparr> totalDiInitializations = 12, mockLoggerIdCounter = 7, numberLogs = 6 \<rparr>))"
    by (simp add: eval_defs)
  have run2: "runTest (demo_case SINGLETON True) demo_envs
                \<lparr> totalDiInitializations = 12, mockLoggerIdCounter = 7, numberLogs = 6 \<rparr> =
     Some (Inr (\<lparr> r_maxInFlightHit = True, r_requestNumber = 3, r_resolveCacheHits = 1,
                    r_numberLogs = 6, r_resolvedResults = 2, r_totalSeconds = 1501 / 500,
                    r_totalSecondsResolving = 3 / 1000, r_totalDiInitializations = 5 \<rparr>,
                \<lparr> totalDiInitializations = 5, mockLoggerIdCounter = 8, numberLogs = 6 \<rparr>))"
    by (simp add: eval_defs)
  have run: "runMatrix demo_matrix 3 [demo_envs, demo_envs] demo_globals =
     Some (Inr
       [(demo_case TRANSIENT True,
         \<lparr> r_maxInFlightHit = True, r_requestNumber = 3, r_resolveCacheHits = 0,
           r_numberLogs = 6, r_resolvedResults = 2, r_totalSeconds = 1501 / 500,
           r_totalSecondsResolving = 3 / 1000, r_totalDiInitializations = 12 \<rparr>),
        (demo_case SINGLETON True,
         \<lparr> r_maxInFlightHit = True, r_requestNumber = 3, r_resolveCacheHits = 1,
           r_numberLogs = 6, r_resolvedResults = 2, r_totalSeconds = 1501 / 500,
           r_totalSecondsResolving = 3 / 1000, r_totalDiInitializations = 5 \<rparr>)])"
    by (simp add: runMatrix_def tcs run1 run2)
  have axes: "numberServices_axis demo_matrix = [2]" "maxInFlight_axis demo_matrix = [1]"
    "lifetimeType_axis demo_matrix = [TRANSIENT, SINGLETON]" "cacheBypass_axis demo_matrix = [True]"
    by (simp_all add: demo_matrix_def)
  have cases_eq: "map (mkTestCase 3)
      (List.product [2] (List.product [1] (List.product [TRANSIENT, SINGLETON] [True]))) =
      [demo_case TRANSIENT True, demo_case SINGLETON True]"
    by (simp add: mkTestCase_def demo_case_def)
  have ad: "list_all2 adequate
     (map (mkTestCase 3) (List.product [2] (List.product [1] (List.product [TRANSIENT, SINGLETON] [True]))))
     [demo_envs, demo_envs]"
    unfolding cases_eq by (simp add: adequate_demo)
  have dist: "distinct [2::nat] \<and> distinct [1::nat] \<and> distinct [TRANSIENT, SINGLETON] \<and> distinct [True]"
    by simp
  from matrix_expansion [of 3 demo_matrix "[demo_envs, demo_envs]" demo_globals, unfolded axes, OF ad]
  obtain results where
    "runMatrix demo_matrix 3 [demo_envs, demo_envs] demo_globals = Some (Inr results)"
    and "map fst results =
     map (mkTestCase 3) (List.product [2] (List.product [1] (List.product [TRANSIENT, SINGLETON] [True])))"
    and "distinct [2::nat] \<and> distinct [1::nat] \<and> distinct [TRANSIENT, SINGLETON] \<and> distinct [True]
         \<longrightarrow> distinct (map fst results)"
    by blast
  with run dist ad show ?thesis
    by simp
qed

text \<open>
  C7. Lines 96-107: with \<open>cacheBypass\<close>, the driver first looks the chosen name up in
  the cache of the resolving container; on a hit it takes the cached instance, counts a
  cache hit and leaves the store as it is (nothing is resolved); on a miss it resolves.
  Without \<open>cacheBypass\<close> it always resolves. Every iteration that completes has
  resolved its service this way, with the flag of its test case, and has called the
  action of that service.
\<close>

theorem cache_bypass_resolution:
  "(bypass \<and> cache_get h name = Some v \<longrightarrow>
      resolveService bypass regs name hits h = Inr (v, hits + 1, h)) \<and>
   (bypass \<and> cache_get h name = None \<longrightarrow>
      resolveService bypass regs name hits h =
        (case container_resolve regs name h of Inl e \<Rightarrow> Inl e | Inr (w, h') \<Rightarrow> Inr (w, hits, h'))) \<and>
   (\<not> bypass \<longrightarrow>
      resolveService bypass regs name hits h =
        (case container_resolve regs name h of Inl e \<Rightarrow> Inl e | Inr (w, h') \<Rightarrow> Inr (w, hits, h'))) \<and>
   (iteration opts regs names env s = Inr s' \<longrightarrow>
      (\<exists>randomService h' p g'.
         resolveService (cacheBypass opts) regs
           (if randomServiceIndex env < length names then Some (names ! randomServiceIndex env)
            else None)
           (resolveCacheHits s)
           (if lifetimeType opts = SCOPED then createScope (store s)
            else (store s)\<lparr>scopeCache := None\<rparr>)
           = Inr (randomService, resolveCacheHits s', h') \<and>
         mockAction randomService (requestNumber s') (globals h') = Some (p, g') \<and>
         store s' = h'\<lparr>globals := g'\<rparr>))"
proof (intro conjI impI)
  assume it: "iteration opts regs names env s = Inr s'"
  then have rn: "requestNumber s' = Suc (requestNumber s)"
    by (rule iteration_requestNumber)
  from it show "\<exists>randomService h' p g'.
         resolveService (cacheBypass opts) regs
           (if randomServiceIndex env < length names then Some (names ! randomServiceIndex env)
            else None)
           (resolveCacheHits s)
           (if lifetimeType opts = SCOPED then createScope (store s)
            else (store s)\<lparr>scopeCache := None\<rparr>)
           = Inr (randomService, resolveCacheHits s', h') \<and>
         mockAction randomService (requestNumber s') (globals h') = Some (p, g') \<and>
         store s' = h'\<lparr>globals := g'\<rparr>"
    unfolding rn by (rule iteration_store) blast
qed (simp_all add: resolveService_def)

theorem cache_bypass_resolution_witness:
  "cache_get demo_store (Some ''mockService0'') = Some demo_service \<and>
   resolveService True (fst (generateAwilixConfig 2 SINGLETON)) (Some ''mockService0'') 0 demo_store =
     Inr (demo_service, 1, demo_store) \<and>
   cache_get demo_store (Some ''mockService1'') = None \<and>
   resolveService True (fst (generateAwilixConfig 2 SINGLETON)) (Some ''mockService1'') 0 demo_store =
     (case container_resolve (fst (generateAwilixConfig 2 SINGLETON)) (Some ''mockService1'') demo_store of
        Inl e \<Rightarrow> Inl e | Inr (w, h') \<Rightarrow> Inr (w, 0, h')) \<and>
   resolveService False (fst (generateAwilixConfig 2 SINGLETON)) (Some ''mockService0'') 0 demo_store =
     (case container_resolve (fst (generateAwilixConfig 2 SINGLETON)) (Some ''mockService0'') demo_store of
        Inl e \<Rightarrow> Inl e | Inr (w, h') \<Rightarrow> Inr (w, 0, h')) \<and>
   iteration (demo_case SINGLETON True) (fst (generateAwilixConfig 2 SINGLETON))
       (snd (generateAwilixConfig 2 SINGLETON)) (hd demo_envs) (initialState demo_globals) =
     Inr \<lparr> store = demo_store,
           unresolvedPromises = [(1, Pending)], resolvedResults = 0,
           resolveCacheHits = 0, maxInFlightHit = True, requestNumber = 1,
           msSpentResolving = 1, microtasks = [ThenReaction 1 True] \<rparr> \<and>
   (\<exists>randomService h' p g'.
      resolveService True (fst (generateAwilixConfig 2 SINGLETON)) (Some ''mockService0'') 0
        (store (initialState demo_globals)) = Inr (randomService, 0, h') \<and>
      mockAction randomService 1 (globals h') = Some (p, g') \<and>
      demo_store = h'\<lparr>globals := g'\<rparr>)"
proof -
  let ?regs = "fst (generateAwilixConfig 2 SINGLETON)"
  let ?names = "snd (generateAwilixConfig 2 SINGLETON)"
  let ?s' = "\<lparr> store = demo_store,
           unresolvedPromises = [(1, Pending)], resolvedResults = 0,
           resolveCacheHits = 0, maxInFlightHit = True, requestNumber = 1,
           msSpentResolving = 1, microtasks = [ThenReaction 1 True] \<rparr>"
  have hit: "cache_get demo_store (Some ''mockService0'') = Some demo_service"
    by (simp add: cache_get_def targetCache_def demo_store_def)
  have miss: "cache_get demo_store (Some ''mockService1'') = None"
    by (simp add: cache_get_def targetCache_def demo_store_def)
  have it: "iteration (demo_case SINGLETON True) ?regs ?names (hd demo_envs) (initialState demo_globals)
      = Inr ?s'"
    by (simp add: eval_defs demo_store_def demo_service_def)
  have names: "?names = [''mockService0'', ''mockService1'']"
    by (simp add: eval_defs)
  have pick: "(if randomServiceIndex (hd demo_envs) < length ?names
               then Some (?names ! randomServiceIndex (hd demo_envs)) else None) = Some ''mockService0''"
    unfolding names by (simp add: demo_envs_def)
  have target: "(if lifetimeType (demo_case SINGLETON True) = SCOPED
                 then createScope (store (initialState demo_globals))
                 else (store (initialState demo_globals))\<lparr>scopeCache := None\<rparr>) =
                store (initialState demo_globals)"
    by (simp add: demo_case_def initialState_def)
  note a = cache_bypass_resolution
    [of True demo_store "Some ''mockService0''" demo_service ?regs 0
        "demo_case SINGLETON True" ?names "hd demo_envs" "initialState demo_globals" ?s']
  note b = cache_bypass_resolution
    [of True demo_store "Some ''mockService1''" demo_service ?regs 0
        "demo_case SINGLETON True" ?names "hd demo_envs" "initialState demo_globals" ?s']
  note c = cache_bypass_resolution
    [of False demo_store "Some ''mockService0''" demo_service ?regs 0
        "demo_case SINGLETON True" ?names "hd demo_envs" "initialState demo_globals" ?s']
  from a hit have 1: "resolveService True ?regs (Some ''mockService0'') 0 demo_store =
     Inr (demo_service, 1, demo_store)"
    by simp
  from b miss have 2: "resolveService True ?regs (Some ''mockService1'') 0 demo_store =
     (case container_resolve ?regs (Some ''mockService1'') demo_store of
        Inl e \<Rightarrow> Inl e | Inr (w, h') \<Rightarrow> Inr (w, 0, h'))"
    by simp
  from c have 3: "resolveService False ?regs (Some ''mockService0'') 0 demo_store =
     (case container_resolve ?regs (Some ''mockService0'') demo_store of
        Inl e \<Rightarrow> Inl e | Inr (w, h') \<Rightarrow> Inr (w, 0, h'))"
    by simp
  from a it have 4: "\<exists>randomService h' p g'.
      resolveService True ?regs (Some ''mockService0'') 0
        (store (initialState demo_globals)) = Inr (randomService, 0, h') \<and>
      mockAction randomService 1 (globals h') = Some (p, g') \<and>
      demo_store = h'\<lparr>globals := g'\<rparr>"
    unfolding pick target by (simp add: demo_case_def)
  from hit miss it 1 2 3 4 show ?thesis
    by blast
qed

text \<open>
  C8. Lines 83-84 and 133-142: before the first request of a run both counters are zero,
  whatever an earlier run left in them; the result of a run, and so of every later run,
  does not depend on the values the counters had when the run began; and the two fields
  of the result are the counters as they stand when \<open>runTest\<close> returns.
\<close>

theorem counters_reset_per_run:
  "numberLogs (globals (store (initialState g))) = 0 \<and>
   totalDiInitializations (globals (store (initialState g))) = 0 \<and>
   requestNumber (initialState g) = 0 \<and>
   runTest opts envs (g\<lparr>totalDiInitializations := a, numberLogs := b\<rparr>) = runTest opts envs g \<and>
   runAll cs envss (g\<lparr>totalDiInitializations := a, numberLogs := b\<rparr>) acc = runAll cs envss g acc \<and>
   (adequate opts envs \<longrightarrow> (\<exists>r g'. runTest opts envs g = Some (Inr (r, g')))) \<and>
   (runTest opts envs g = Some (Inr (r, g')) \<longrightarrow>
      r_numberLogs r = numberLogs g' \<and> r_totalDiInitializations r = totalDiInitializations g')"
proof -
  have "r_numberLogs r = numberLogs g' \<and> r_totalDiInitializations r = totalDiInitializations g'"
    if "runTest opts envs g = Some (Inr (r, g'))"
    using that by (rule runTest_InrE) (simp add: report_def)
  moreover have "\<exists>r g'. runTest opts envs g = Some (Inr (r, g'))" if "adequate opts envs"
    using that by (rule runTest_returns)
  ultimately show ?thesis
    by (simp add: runTest_reset runAll_reset)
qed

theorem counters_reset_per_run_witness:
  "adequate (demo_case SINGLETON True) demo_envs \<and>
   runTest (demo_case SINGLETON True) demo_envs demo_globals =
     Some (Inr (\<lparr> r_maxInFlightHit = True, r_requestNumber = 3, r_resolveCacheHits = 1,
                    r_numberLogs = 6, r_resolvedResults = 2, r_totalSeconds = 1501 / 500,
                    r_totalSecondsResolving = 3 / 1000, r_totalDiInitializations = 5 \<rparr>,
                \<lparr> totalDiInitializations = 5, mockLoggerIdCounter = 2, numberLogs = 6 \<rparr>)) \<and>
   runTest (demo_case SINGLETON True) demo_envs
     (demo_globals\<lparr>totalDiInitializations := 0, numberLogs := 0\<rparr>) =
     runTest (demo_case SINGLETON True) demo_envs demo_globals \<and>
   (6::nat) = numberLogs \<lparr> totalDiInitializations = 5, mockLoggerIdCounter = 2, numberLogs = 6 \<rparr> \<and>
   (5::nat) = totalDiInitializations \<lparr> totalDiInitializations = 5, mockLoggerIdCounter = 2, numberLogs = 6 \<rparr>"
proof -
  have run: "runTest (demo_case SINGLETON True) demo_envs demo_globals =
     Some (Inr (\<lparr> r_maxInFlightHit = True, r_requestNumber = 3, r_resolveCacheHits = 1,
                    r_numberLogs = 6, r_resolvedResults = 2, r_totalSeconds = 1501 / 500,
                    r_totalSecondsResolving = 3 / 1000, r_totalDiInitializations = 5 \<rparr>,
                \<lparr> totalDiInitializations = 5, mockLoggerIdCounter = 2, numberLogs = 6 \<rparr>))"
    by (simp add: eval_defs)
  from counters_reset_per_run
    [where g = demo_globals and opts = "demo_case SINGLETON True" and envs = demo_envs
       and a = 0 and b = 0 and cs = "[]" and envss = "[]" and acc = "[]"]
    run adequate_demo(1) [of SINGLETON True]
  show ?thesis
    by simp
qed

text \<open>
  C9. With lifetime \<open>SCOPED\<close> and \<open>cacheBypass\<close>, the result reports no cache hit:
  each iteration creates a scope and looks the name up in that scope's cache, which is
  empty.
\<close>

theorem scoped_bypass_never_hits:
  assumes lt: "lifetimeType opts = SCOPED" and "cacheBypass opts"
  shows "(adequate opts envs \<longrightarrow> (\<exists>r g'. runTest opts envs g = Some (Inr (r, g')))) \<and>
         (runTest opts envs g = Some (Inr (r, g')) \<longrightarrow> r_resolveCacheHits r = 0)"
proof (intro conjI impI)
  assume "adequate opts envs"
  then show "\<exists>r g'. runTest opts envs g = Some (Inr (r, g'))"
    by (rule runTest_returns)
next
  assume run: "runTest opts envs g = Some (Inr (r, g'))"
  show "r_resolveCacheHits r = 0"
  proof -
    from run obtain s n where
      s: "iterations opts (fst (generateAwilixConfig (numberServices opts) (lifetimeType opts)))
            (snd (generateAwilixConfig (numberServices opts) (lifetimeType opts)))
            (take (Suc n) envs) (initialState g) = Inr s"
      and r: "r = report s (envs ! n)"
      by (rule runTest_InrE)
    from iterations_scoped_hits [OF s lt] r show ?thesis
      by (simp add: report_def)
  qed
qed

theorem scoped_bypass_never_hits_witness:
  "adequate (demo_case SCOPED True) demo_envs \<and>
   runTest (demo_case SCOPED True) demo_envs demo_globals =
     Some (Inr (\<lparr> r_maxInFlightHit = True, r_requestNumber = 3, r_resolveCacheHits = 0,
                    r_numberLogs = 6, r_resolvedResults = 2, r_totalSeconds = 1501 / 500,
                    r_totalSecondsResolving = 3 / 1000, r_totalDiInitializations = 9 \<rparr>,
                \<lparr> totalDiInitializations = 9, mockLoggerIdCounter = 4, numberLogs = 6 \<rparr>)) \<and>
   lifetimeType (demo_case SCOPED True) = SCOPED \<and> cacheBypass (demo_case SCOPED True) \<and>
   r_resolveCacheHits \<lparr> r_maxInFlightHit = True, r_requestNumber = 3, r_resolveCacheHits = 0,
                    r_numberLogs = 6, r_resolvedResults = 2, r_totalSeconds = 1501 / 500,
                    r_totalSecondsResolving = 3 / 1000, r_totalDiInitializations = 9 \<rparr> = 0"
proof -
  have run: "runTest (demo_case SCOPED True) demo_envs demo_globals =
     Some (Inr (\<lparr> r_maxInFlightHit = True, r_requestNumber = 3, r_resolveCacheHits = 0,
                    r_numberLogs = 6, r_resolvedResults = 2, r_totalSeconds = 1501 / 500,
                    r_totalSecondsResolving = 3 / 1000, r_totalDiInitializations = 9 \<rparr>,
                \<lparr> totalDiInitializations = 9, mockLoggerIdCounter = 4, numberLogs = 6 \<rparr>))"
    by (simp add: eval_defs)
  have lt: "lifetimeType (demo_case SCOPED True) = SCOPED" and cb: "cacheBypass (demo_case SCOPED True)"
    by (simp_all add: demo_case_def)
  from scoped_bypass_never_hits [OF lt cb, where envs = demo_envs and g = demo_globals]
    run lt cb adequate_demo(1) [of SCOPED True]
  show ?thesis
    by simp
qed

text \<open>
  C10. In every run, after every iteration of the loop and in the returned result, the
  number of completions is at most the number of requests issued: a completion is
  counted by the reaction of an action that an already counted request launched. The
  first part speaks of the state after any number \<open>k\<close> of iterations of the run, the
  second of the object that \<open>runTest\<close> returns.
\<close>

theorem completions_le_requests:
  "(adequate opts envs \<longrightarrow> (\<exists>r g'. runTest opts envs g = Some (Inr (r, g')))) \<and>
   (generateAwilixConfig (numberServices opts) (lifetimeType opts) = (regs, names) \<and>
    iterations opts regs names (take k envs) (initialState g) = Inr s \<longrightarrow>
      resolvedResults s \<le> requestNumber s) \<and>
   (runTest opts envs g = Some (Inr (r, g')) \<longrightarrow> r_resolvedResults r \<le> r_requestNumber r)"
proof (intro conjI impI)
  show "\<exists>r g'. runTest opts envs g = Some (Inr (r, g'))" if "adequate opts envs"
    using that by (rule runTest_returns)
  have *: "resolvedResults t \<le> requestNumber t"
    if "iterations opts regs names es (initialState g) = Inr t" for regs names es t
    using iterations_progress [OF that] iterations_requestNumber [OF that] by simp
  show "resolvedResults s \<le> requestNumber s"
    if "generateAwilixConfig (numberServices opts) (lifetimeType opts) = (regs, names) \<and>
        iterations opts regs names (take k envs) (initialState g) = Inr s"
  proof -
    from that have "iterations opts regs names (take k envs) (initialState g) = Inr s"
      by simp
    then show ?thesis
      by (rule *)
  qed
  show "r_resolvedResults r \<le> r_requestNumber r" if "runTest opts envs g = Some (Inr (r, g'))"
  proof -
    from that obtain t n where
      t: "iterations opts (fst (generateAwilixConfig (numberServices opts) (lifetimeType opts)))
            (snd (generateAwilixConfig (numberServices opts) (lifetimeType opts)))
            (take (Suc n) envs) (initialState g) = Inr t"
      and r: "r = report t (envs ! n)"
      by (rule runTest_InrE)
    from * [OF t] r show ?thesis
      by (simp add: report_def)
  qed
qed

theorem completions_le_requests_witness:
  "adequate (demo_case TRANSIENT True) demo_envs \<and>
   iterations (demo_case TRANSIENT True)
     (fst (generateAwilixConfig 2 TRANSIENT)) (snd (generateAwilixConfig 2 TRANSIENT))
     (take 2 demo_envs) (initialState demo_globals) =
     Inr \<lparr> store = \<lparr> globals = \<lparr> totalDiInitializations = 8, mockLoggerIdCounter = 5,
                                   numberLogs = 4 \<rparr>,
                       rootCache = [], scopeCache = None \<rparr>,
           unresolvedPromises = [(1, Fulfilled), (2, Pending)],
           resolvedResults = 1, resolveCacheHits = 0, maxInFlightHit = True,
           requestNumber = 2, msSpentResolving = 2,
           microtasks = [ThenReaction 2 True] \<rparr> \<and>
   (1::nat) \<le> 2 \<and>
   runTest (demo_case TRANSIENT True) demo_envs demo_globals =
     Some (Inr (\<lparr> r_maxInFlightHit = True, r_requestNumber = 3, r_resolveCacheHits = 0,
                    r_numberLogs = 6, r_resolvedResults = 2, r_totalSeconds = 1501 / 500,
                    r_totalSecondsResolving = 3 / 1000, r_totalDiInitializations = 12 \<rparr>,
                \<lparr> totalDiInitializations = 12, mockLoggerIdCounter = 7, numberLogs = 6 \<rparr>)) \<and>
   (2::nat) \<le> 3"
proof -
  have cfg: "generateAwilixConfig (numberServices (demo_case TRANSIENT True))
               (lifetimeType (demo_case TRANSIENT True)) =
             (fst (generateAwilixConfig 2 TRANSIENT), snd (generateAwilixConfig 2 TRANSIENT))"
    by (simp add: demo_case_def)
  have its: "iterations (demo_case TRANSIENT True)
     (fst (generateAwilixConfig 2 TRANSIENT)) (snd (generateAwilixConfig 2 TRANSIENT))
     (take 2 demo_envs) (initialState demo_globals) =
     Inr \<lparr> store = \<lparr> globals = \<lparr> totalDiInitializations = 8, mockLoggerIdCounter = 5,
                                   numberLogs = 4 \<rparr>,
                       rootCache = [], scopeCache = None \<rparr>,
           unresolvedPromises = [(1, Fulfilled), (2, Pending)],
           resolvedResults = 1, resolveCacheHits = 0, maxInFlightHit = True,
           requestNumber = 2, msSpentResolving = 2,
           microtasks = [ThenReaction 2 True] \<rparr>"
    by (simp add: eval_defs)
  have run: "runTest (demo_case TRANSIENT True) demo_envs demo_globals =
     Some (Inr (\<lparr> r_maxInFlightHit = True, r_requestNumber = 3, r_resolveCacheHits = 0,
                    r_numberLogs = 6, r_resolvedResults = 2, r_totalSeconds = 1501 / 500,
                    r_totalSecondsResolving = 3 / 1000, r_totalDiInitializations = 12 \<rparr>,
                \<lparr> totalDiInitializations = 12, mockLoggerIdCounter = 7, numberLogs = 6 \<rparr>))"
    by (simp add: eval_defs)
  from completions_le_requests
    [where opts = "demo_case TRANSIENT True" and regs = "fst (generateAwilixConfig 2 TRANSIENT)"
       and names = "snd (generateAwilixConfig 2 TRANSIENT)" and k = 2 and envs = demo_envs
       and g = demo_globals]
    cfg its run adequate_demo(1) [of TRANSIENT True]
  show ?thesis
    by simp
qed

end
